theory Spec2Isabelle
  imports Main "HOL-Library.AList"
begin

section \<open>The run ledger of pykit (\<open>src/pykit/ledger/ledger.py\<close>)\<close>

text \<open>
  The ledger is a JSON file holding a dictionary from identifiers to run-sets, a run-set
  being a dictionary from uids to run records. Python dictionaries keep insertion order
  and \<open>find_by_param_hash\<close> depends on it, so a dictionary is an association list:
  \<open>map_of\<close> looks a key up, \<open>AList.update\<close> is the assignment \<open>d[k] = v\<close> (an
  existing key keeps its position, a new key goes to the end).
\<close>

subsection \<open>Status, RunRecord, errors\<close>

text \<open>
  Modelled from the spec: \<open>status.py\<close> is not among the sources. The spec (4.3, 6) gives
  a string enum with the four members below; a member of a string enum with a non-empty
  value is truthy, which is what \<open>log\<close> tests.
\<close>

datatype Status = PENDING | RUNNING | DONE | ERROR

text \<open>
  Modelled from the spec: \<open>run_record.py\<close> is not among the sources. The spec (3) gives
  the fields; \<open>timestamp_status\<close> records the moment of the call, which the model takes
  as an argument (the reading of the clock). A new record has no files.
\<close>

record RunRecord =
  status :: Status
  param_hash :: "int option"
  relpath :: string
  timestamp :: "nat option"
  files :: "(string \<times> string) list"

definition timestamp_status :: "nat \<Rightarrow> RunRecord \<Rightarrow> RunRecord" where
  "timestamp_status now r = r\<lparr>timestamp := Some now\<rparr>"

definition new_RunRecord :: "Status \<Rightarrow> int option \<Rightarrow> string \<Rightarrow> RunRecord" where
  "new_RunRecord st ph rp =
     \<lparr>status = st, param_hash = ph, relpath = rp, timestamp = None, files = []\<rparr>"

type_synonym UID_RECORD_DICT = "(string \<times> RunRecord) list"
type_synonym DATA_STRUCTURE = "(string \<times> UID_RECORD_DICT) list"

text \<open>
  \<open>KeyError\<close> is the spec's NotFound and carries the message of the source;
  \<open>CapacityExceeded\<close> is what the naming strategy raises; \<open>ValidationError\<close> is what
  \<open>validate_json\<close> raises on a malformed file.
\<close>

datatype error = KeyError string | CapacityExceeded | ValidationError

subsection \<open>The naming strategy\<close>

text \<open>
  Modelled from the spec: \<open>naming_strategy.py\<close> is not among the sources. The spec (4.2):
  uids are the decimal string form of a counter, zero-padded to the width of
  \<open>maxsize - 1\<close>, assigned by finding the smallest non-negative integer whose padded form
  is not already present; a capacity error when no integer in \<open>[0, maxsize)\<close> is free.
\<close>

definition digit_char :: "nat \<Rightarrow> char" where
  "digit_char d = char_of (48 + d)"

fun str_nat :: "nat \<Rightarrow> string" where
  "str_nat n = (if n < 10 then [digit_char n] else str_nat (n div 10) @ [digit_char (n mod 10)])"

declare str_nat.simps [simp del]

definition py_str :: "int \<Rightarrow> string" where
  "py_str i = (if i < 0 then CHR ''-'' # str_nat (nat (- i)) else str_nat (nat i))"

definition zero_pad :: "nat \<Rightarrow> nat \<Rightarrow> string" where
  "zero_pad width i = replicate (width - length (str_nat i)) (CHR ''0'') @ str_nat i"

definition uid_width :: "int \<Rightarrow> nat" where
  "uid_width maxsize = length (py_str (maxsize - 1))"

function first_free :: "string list \<Rightarrow> nat \<Rightarrow> nat \<Rightarrow> nat \<Rightarrow> error + string" where
  "first_free existing width n i =
     (if i < n
      then (if zero_pad width i \<in> set existing
            then first_free existing width n (Suc i)
            else Inr (zero_pad width i))
      else Inl CapacityExceeded)"
  by pat_completeness auto
termination
  by (relation "measure (\<lambda>(existing, width, n, i). n - i)") auto

declare first_free.simps [simp del]

definition counter_naming_strategy :: "string list \<Rightarrow> int \<Rightarrow> error + string" where
  "counter_naming_strategy existing maxsize =
     first_free existing (uid_width maxsize) (nat maxsize) 0"

subsection \<open>Dictionary operations\<close>

definition setdefault :: "('k \<times> 'v) list \<Rightarrow> 'k \<Rightarrow> 'v \<Rightarrow> 'v \<times> ('k \<times> 'v) list" where
  "setdefault d k v = (case map_of d k of Some x \<Rightarrow> (x, d) | None \<Rightarrow> (v, d @ [(k, v)]))"

fun dict_update :: "('k \<times> 'v) list \<Rightarrow> ('k \<times> 'v) list \<Rightarrow> ('k \<times> 'v) list" where
  "dict_update d [] = d"
| "dict_update d ((k, v) # other) = dict_update (AList.update k v d) other"

subsection \<open>The store\<close>

text \<open>
  \<open>DATA_STRUCTURE_MODEL\<close> is a pydantic \<open>TypeAdapter\<close>; its two methods are parameters
  of the model, over any type \<open>'b\<close> of file contents.
\<close>

record 'b TypeAdapter =
  validate_json :: "'b \<Rightarrow> error + DATA_STRUCTURE"
  dump_json :: "DATA_STRUCTURE \<Rightarrow> 'b"

text \<open>
  The state of one \<open>Ledger\<close> and of its file: \<open>file_bytes\<close> is the content at the path
  \<open>self.file\<close> (\<open>None\<close> when the file does not exist), \<open>data\<close> is \<open>self._data\<close>.
  \<open>n_reads\<close> and \<open>n_writes\<close> count the calls of \<open>read_bytes\<close> and \<open>write_bytes\<close>.
\<close>

record 'b Ledger =
  file_bytes :: "'b option"
  maxsize :: int
  data :: DATA_STRUCTURE
  n_reads :: nat
  n_writes :: nat

text \<open>\<open>_load\<close>: a missing file gives a fresh empty dictionary and leaves \<open>self._data\<close>.\<close>

definition load :: "'b TypeAdapter \<Rightarrow> 'b Ledger \<Rightarrow> (error + DATA_STRUCTURE) \<times> 'b Ledger" where
  "load M s =
     (case file_bytes s of
        None \<Rightarrow> (Inr [], s)
      | Some bytes \<Rightarrow>
          (case validate_json M bytes of
             Inl e \<Rightarrow> (Inl e, s\<lparr>n_reads := n_reads s + 1\<rparr>)
           | Inr d \<Rightarrow> (Inr d, s\<lparr>n_reads := n_reads s + 1, data := d\<rparr>)))"

definition save :: "'b TypeAdapter \<Rightarrow> 'b Ledger \<Rightarrow> DATA_STRUCTURE \<Rightarrow> 'b Ledger" where
  "save M s d = s\<lparr>file_bytes := Some (dump_json M d), n_writes := n_writes s + 1, data := d\<rparr>"

text \<open>
  The context managers take the body of the \<open>with\<close> statement as a function: it gets the
  yielded object and returns its result together with the object as mutated, also when
  it raises. \<open>_edit_data\<close> saves only when the body returns. The dictionary that
  \<open>_load\<close> returns for an existing file is \<open>self._data\<close> itself, so what a raising
  body did to it stays in \<open>self._data\<close>. Taking and releasing \<open>LEDGER_LOCK\<close> does
  nothing in a sequential run.
\<close>

definition edit_data ::
  "'b TypeAdapter \<Rightarrow> 'b Ledger \<Rightarrow> (DATA_STRUCTURE \<Rightarrow> (error + 'a) \<times> DATA_STRUCTURE)
     \<Rightarrow> (error + 'a) \<times> 'b Ledger" where
  "edit_data M s body =
     (case load M s of
        (Inl e, s1) \<Rightarrow> (Inl e, s1)
      | (Inr d, s1) \<Rightarrow>
          (case body d of
             (Inl e, d') \<Rightarrow> (Inl e, if file_bytes s = None then s1 else s1\<lparr>data := d'\<rparr>)
           | (Inr a, d') \<Rightarrow> (Inr a, save M s1 d')))"

definition uid_record_dict_body ::
  "string \<Rightarrow> (UID_RECORD_DICT \<Rightarrow> (error + 'a) \<times> UID_RECORD_DICT)
     \<Rightarrow> DATA_STRUCTURE \<Rightarrow> (error + 'a) \<times> DATA_STRUCTURE" where
  "uid_record_dict_body identifier body d =
     (case setdefault d identifier [] of
        (uid_records, d1) \<Rightarrow>
          (case body uid_records of
             (r, uid_records') \<Rightarrow> (r, AList.update identifier uid_records' d1)))"

definition edit_uid_record_dict ::
  "'b TypeAdapter \<Rightarrow> 'b Ledger \<Rightarrow> string
     \<Rightarrow> (UID_RECORD_DICT \<Rightarrow> (error + 'a) \<times> UID_RECORD_DICT) \<Rightarrow> (error + 'a) \<times> 'b Ledger" where
  "edit_uid_record_dict M s identifier body =
     edit_data M s (uid_record_dict_body identifier body)"

definition quoted :: "string \<Rightarrow> string" where
  "quoted x = CHR 0x27 # x @ [CHR 0x27]"

definition no_run_found :: "string \<Rightarrow> string \<Rightarrow> error" where
  "no_run_found identifier uid =
     KeyError (''No run found for identifier '' @ quoted identifier @ '' and uid '' @ quoted uid)"

definition no_runs_found :: "string \<Rightarrow> error" where
  "no_runs_found identifier = KeyError (''No runs found for identifier '' @ quoted identifier)"

definition record_body ::
  "string \<Rightarrow> string \<Rightarrow> (RunRecord \<Rightarrow> (error + 'a) \<times> RunRecord)
     \<Rightarrow> UID_RECORD_DICT \<Rightarrow> (error + 'a) \<times> UID_RECORD_DICT" where
  "record_body identifier uid body records_dict =
     (case map_of records_dict uid of
        None \<Rightarrow> (Inl (no_run_found identifier uid), records_dict)
      | Some record \<Rightarrow>
          (case body record of
             (r, record') \<Rightarrow> (r, AList.update uid record' records_dict)))"

definition edit_record ::
  "'b TypeAdapter \<Rightarrow> 'b Ledger \<Rightarrow> string \<Rightarrow> string
     \<Rightarrow> (RunRecord \<Rightarrow> (error + 'a) \<times> RunRecord) \<Rightarrow> (error + 'a) \<times> 'b Ledger" where
  "edit_record M s identifier uid body =
     edit_uid_record_dict M s identifier (record_body identifier uid body)"

subsection \<open>The public operations\<close>

definition allocate_body ::
  "int \<Rightarrow> Status \<Rightarrow> string \<Rightarrow> int option \<Rightarrow> nat
     \<Rightarrow> UID_RECORD_DICT \<Rightarrow> (error + string) \<times> UID_RECORD_DICT" where
  "allocate_body msize st rp ph now uid_records =
     (case counter_naming_strategy (map fst uid_records) msize of
        Inl e \<Rightarrow> (Inl e, uid_records)
      | Inr uid \<Rightarrow>
          (Inr uid,
           AList.update uid (timestamp_status now (new_RunRecord st ph rp)) uid_records))"

definition allocate ::
  "'b TypeAdapter \<Rightarrow> 'b Ledger \<Rightarrow> string \<Rightarrow> Status \<Rightarrow> string \<Rightarrow> int option \<Rightarrow> nat
     \<Rightarrow> (error + string) \<times> 'b Ledger" where
  "allocate M s identifier st rp ph now =
     edit_uid_record_dict M s identifier (allocate_body (maxsize s) st rp ph now)"

text \<open>
  \<open>log\<close>: \<open>status or path_dict\<close> is false when the status is \<open>None\<close> and the
  dictionary is \<open>None\<close> or empty.
\<close>

definition truthy_dict :: "('k \<times> 'v) list option \<Rightarrow> bool" where
  "truthy_dict pd = (case pd of None \<Rightarrow> False | Some d \<Rightarrow> d \<noteq> [])"

definition log_body ::
  "Status option \<Rightarrow> (string \<times> string) list option \<Rightarrow> nat
     \<Rightarrow> RunRecord \<Rightarrow> (error + unit) \<times> RunRecord" where
  "log_body st pd now record =
     (let r1 = (case st of
                  None \<Rightarrow> record
                | Some v \<Rightarrow> timestamp_status now (record\<lparr>status := v\<rparr>));
          r2 = (case pd of
                  None \<Rightarrow> r1
                | Some d \<Rightarrow> if d \<noteq> [] then r1\<lparr>files := dict_update (files r1) d\<rparr> else r1)
      in (Inr (), r2))"

definition log ::
  "'b TypeAdapter \<Rightarrow> 'b Ledger \<Rightarrow> string \<Rightarrow> string
     \<Rightarrow> Status option \<Rightarrow> (string \<times> string) list option \<Rightarrow> nat
     \<Rightarrow> (error + unit) \<times> 'b Ledger" where
  "log M s identifier uid st pd now =
     (if \<not> (st \<noteq> None \<or> truthy_dict pd) then (Inr (), s)
      else edit_record M s identifier uid (log_body st pd now))"

definition get_record ::
  "'b TypeAdapter \<Rightarrow> 'b Ledger \<Rightarrow> string \<Rightarrow> string \<Rightarrow> (error + RunRecord) \<times> 'b Ledger" where
  "get_record M s identifier uid =
     (case load M s of
        (Inl e, s1) \<Rightarrow> (Inl e, s1)
      | (Inr d, s1) \<Rightarrow>
          (case map_of d identifier of
             None \<Rightarrow> (Inl (no_run_found identifier uid), s1)
           | Some uid_records \<Rightarrow>
               (case map_of uid_records uid of
                  None \<Rightarrow> (Inl (no_run_found identifier uid), s1)
                | Some r \<Rightarrow> (Inr r, s1))))"

definition get_uid_record_dict ::
  "'b TypeAdapter \<Rightarrow> 'b Ledger \<Rightarrow> string \<Rightarrow> (error + UID_RECORD_DICT) \<times> 'b Ledger" where
  "get_uid_record_dict M s identifier =
     (case load M s of
        (Inl e, s1) \<Rightarrow> (Inl e, s1)
      | (Inr d, s1) \<Rightarrow>
          (case map_of d identifier of
             None \<Rightarrow> (Inl (no_runs_found identifier), s1)
           | Some uid_records \<Rightarrow> (Inr uid_records, s1)))"

definition find_by_param_hash ::
  "'b TypeAdapter \<Rightarrow> 'b Ledger \<Rightarrow> string \<Rightarrow> int option
     \<Rightarrow> (error + (string \<times> RunRecord) option) \<times> 'b Ledger" where
  "find_by_param_hash M s identifier ph =
     (case ph of
        None \<Rightarrow> (Inr None, s)
      | Some h \<Rightarrow>
          (case get_uid_record_dict M s identifier of
             (Inl e, s1) \<Rightarrow> (Inl e, s1)
           | (Inr uid_records_dict, s1) \<Rightarrow>
               (Inr (find (\<lambda>(u, r). param_hash r = Some h) uid_records_dict), s1)))"


text \<open>
  \<open>Session.attach_files\<close> of \<open>project/session.py\<close>: a \<open>log\<close> with a path_dict and
  no status.
\<close>

definition attach_files ::
  "'b TypeAdapter \<Rightarrow> 'b Ledger \<Rightarrow> string \<Rightarrow> string \<Rightarrow> (string \<times> string) list \<Rightarrow> nat
     \<Rightarrow> (error + unit) \<times> 'b Ledger" where
  "attach_files M s identifier uid path_dict now =
     log M s identifier uid None (Some path_dict) now"

subsection \<open>Notions used to state the properties\<close>

text \<open>The value of a string of decimal digits, leading zeros allowed.\<close>

definition digit_val :: "char \<Rightarrow> nat" where
  "digit_val c = of_char c - 48"

definition dec_val :: "string \<Rightarrow> nat" where
  "dec_val x = foldl (\<lambda>a c. 10 * a + digit_val c) 0 x"

text \<open>
  The run-set that \<open>data.setdefault(identifier, {})\<close> yields, and the record that
  \<open>data[identifier][uid]\<close> is, if any.
\<close>

definition run_set :: "DATA_STRUCTURE \<Rightarrow> string \<Rightarrow> UID_RECORD_DICT" where
  "run_set d identifier = fst (setdefault d identifier [])"

definition lookup :: "DATA_STRUCTURE \<Rightarrow> string \<Rightarrow> string \<Rightarrow> RunRecord option" where
  "lookup d identifier uid =
     (case map_of d identifier of None \<Rightarrow> None | Some uid_records \<Rightarrow> map_of uid_records uid)"

text \<open>
  What the properties of several calls in a row need of pydantic: a document that
  \<open>dump_json\<close> wrote is read back by \<open>validate_json\<close> as it was.
\<close>

definition roundtrip :: "'b TypeAdapter \<Rightarrow> bool" where
  "roundtrip M = (\<forall>d. validate_json M (dump_json M d) = Inr d)"

text \<open>The uids of the identifier's run-set in the file, none when the file does not load.\<close>

definition stored_uids :: "'b TypeAdapter \<Rightarrow> 'b Ledger \<Rightarrow> string \<Rightarrow> string set" where
  "stored_uids M s identifier =
     (case fst (load M s) of Inl e \<Rightarrow> {} | Inr d \<Rightarrow> fst ` set (run_set d identifier))"

text \<open>
  A caller that allocates for one identifier several times in a row, each call with its
  own status, relpath, param_hash and clock reading, and keeps every outcome.
\<close>

fun allocate_seq ::
  "'b TypeAdapter \<Rightarrow> 'b Ledger \<Rightarrow> string \<Rightarrow> (Status \<times> string \<times> int option \<times> nat) list
     \<Rightarrow> (error + string) list \<times> 'b Ledger" where
  "allocate_seq M s identifier [] = ([], s)"
| "allocate_seq M s identifier ((st, rp, ph, now) # calls) =
     (case allocate M s identifier st rp ph now of
        (r, s1) \<Rightarrow>
          (case allocate_seq M s1 identifier calls of
             (rs, s2) \<Rightarrow> (r # rs, s2)))"

fun returned :: "(error + 'a) list \<Rightarrow> 'a list" where
  "returned [] = []"
| "returned (Inl e # rs) = returned rs"
| "returned (Inr u # rs) = u # returned rs"

text \<open>The adapter that stores the document itself, and a ledger whose file does not exist.\<close>

definition plain_adapter :: "DATA_STRUCTURE TypeAdapter" where
  "plain_adapter = \<lparr>validate_json = Inr, dump_json = (\<lambda>d. d)\<rparr>"

definition fresh_ledger :: "int \<Rightarrow> DATA_STRUCTURE Ledger" where
  "fresh_ledger m = \<lparr>file_bytes = None, maxsize = m, data = [], n_reads = 0, n_writes = 0\<rparr>"

text \<open>
  A ledger whose file holds one identifier with four runs, of param_hash 5, None, 5
  and 7 in this order.
\<close>

definition sample_record :: "int option \<Rightarrow> string \<Rightarrow> RunRecord" where
  "sample_record ph rp = timestamp_status 0 (new_RunRecord PENDING ph rp)"

definition sample_document :: DATA_STRUCTURE where
  "sample_document =
     [(''known_id'',
       [(''000'', sample_record (Some 5) ''a''), (''001'', sample_record None ''b''),
        (''002'', sample_record (Some 5) ''c''), (''003'', sample_record (Some 7) ''d'')])]"

definition sample_ledger :: "DATA_STRUCTURE Ledger" where
  "sample_ledger =
     \<lparr>file_bytes = Some sample_document, maxsize = 1000, data = [], n_reads = 0, n_writes = 0\<rparr>"

section \<open>Properties\<close>

subsection \<open>Decimal strings\<close>

lemma digit_val_digit_char: "d < 10 \<Longrightarrow> digit_val (digit_char d) = d"
  by (simp add: digit_val_def digit_char_def)

lemma dec_val_snoc: "dec_val (s @ [c]) = 10 * dec_val s + digit_val c"
  by (simp add: dec_val_def)

lemma dec_val_str_nat: "dec_val (str_nat n) = n"
proof (induction n rule: str_nat.induct)
  case (1 n)
  show ?case
  proof (cases "n < 10")
    case True
    then show ?thesis
      by (simp add: str_nat.simps[of n] dec_val_def digit_val_digit_char)
  next
    case False
    with 1 have "dec_val (str_nat (n div 10)) = n div 10" by simp
    with False show ?thesis
      by (simp add: str_nat.simps[of n] dec_val_snoc digit_val_digit_char)
  qed
qed

lemma dec_val_zeros: "foldl (\<lambda>a c. 10 * a + digit_val c) 0 (replicate k (CHR ''0'')) = 0"
  by (induction k) (simp_all add: digit_val_def)

lemma dec_val_zero_pad: "dec_val (zero_pad w i) = i"
  using dec_val_str_nat[of i]
  by (simp add: zero_pad_def dec_val_def dec_val_zeros)

lemma zero_pad_inj: "zero_pad w i = zero_pad w j \<Longrightarrow> i = j"
  by (metis dec_val_zero_pad)

lemma first_free_Inr:
  "first_free ex w n i = Inr u \<Longrightarrow>
     \<exists>k. i \<le> k \<and> k < n \<and> u = zero_pad w k \<and> u \<notin> set ex \<and>
         (\<forall>j. i \<le> j \<and> j < k \<longrightarrow> zero_pad w j \<in> set ex)"
proof (induction ex w n i rule: first_free.induct)
  case (1 ex w n i)
  show ?case
  proof (cases "i < n \<and> zero_pad w i \<in> set ex")
    case True
    with "1.prems" have "first_free ex w n (Suc i) = Inr u"
      by (simp add: first_free.simps[of ex w n i])
    with True "1.IH" obtain k where k: "Suc i \<le> k" "k < n" "u = zero_pad w k" "u \<notin> set ex"
      "\<forall>j. Suc i \<le> j \<and> j < k \<longrightarrow> zero_pad w j \<in> set ex"
      by blast
    have "\<forall>j. i \<le> j \<and> j < k \<longrightarrow> zero_pad w j \<in> set ex"
    proof (intro allI impI)
      fix j assume "i \<le> j \<and> j < k"
      then show "zero_pad w j \<in> set ex"
        using k(5) True by (cases "j = i") auto
    qed
    with k show ?thesis
      by (metis Suc_leD)
  next
    case False
    with "1.prems" have "i < n" "u = zero_pad w i" "zero_pad w i \<notin> set ex"
      by (auto simp: first_free.simps[of ex w n i] split: if_splits)
    then show ?thesis
      by (intro exI[of _ i]) auto
  qed
qed

lemma first_free_Inl:
  "first_free ex w n i = Inl e \<longleftrightarrow>
     e = CapacityExceeded \<and> (\<forall>j. i \<le> j \<and> j < n \<longrightarrow> zero_pad w j \<in> set ex)"
proof (induction ex w n i rule: first_free.induct)
  case (1 ex w n i)
  show ?case
  proof (cases "i < n")
    case False
    then show ?thesis
      by (auto simp: first_free.simps[of ex w n i])
  next
    case True
    show ?thesis
    proof (cases "zero_pad w i \<in> set ex")
      case False
      with True show ?thesis
        by (auto simp: first_free.simps[of ex w n i])
    next
      case inn: True
      have "(\<forall>j. i \<le> j \<and> j < n \<longrightarrow> zero_pad w j \<in> set ex) \<longleftrightarrow>
            (\<forall>j. Suc i \<le> j \<and> j < n \<longrightarrow> zero_pad w j \<in> set ex)"
        using inn by (metis Suc_leI le_neq_implies_less Suc_leD)
      with True inn "1.IH" show ?thesis
        by (simp add: first_free.simps[of ex w n i])
    qed
  qed
qed

lemma length_str_nat_pos: "0 < length (str_nat n)"
  by (subst str_nat.simps) simp

lemma length_str_nat_mono: "k \<le> m \<Longrightarrow> length (str_nat k) \<le> length (str_nat m)"
proof (induction k arbitrary: m rule: str_nat.induct)
  case (1 k)
  show ?case
  proof (cases "k < 10")
    case True
    then have "length (str_nat k) = 1" by (simp add: str_nat.simps[of k])
    moreover have "Suc 0 \<le> length (str_nat m)"
      using length_str_nat_pos[of m] by (simp only: Suc_le_eq)
    ultimately show ?thesis by simp
  next
    case False
    with "1.prems" have m: "\<not> m < 10" "k div 10 \<le> m div 10"
      by (auto simp: div_le_mono)
    with False "1.IH" have "length (str_nat (k div 10)) \<le> length (str_nat (m div 10))"
      by simp
    with False m show ?thesis
      by (simp add: str_nat.simps[of k] str_nat.simps[of m])
  qed
qed

lemma length_zero_pad: "int k < m \<Longrightarrow> length (zero_pad (uid_width m) k) = uid_width m"
proof -
  assume a: "int k < m"
  then have "k \<le> nat (m - 1)" by simp
  from length_str_nat_mono[OF this] a show ?thesis
    by (simp add: zero_pad_def uid_width_def py_str_def)
qed

subsection \<open>The store\<close>

lemma fst_load:
  "fst (load M s) = (case file_bytes s of None \<Rightarrow> Inr [] | Some b \<Rightarrow> validate_json M b)"
  by (simp add: load_def split: option.splits sum.splits)

lemma load_frame:
  "file_bytes (snd (load M s)) = file_bytes s"
  "n_writes (snd (load M s)) = n_writes s"
  "maxsize (snd (load M s)) = maxsize s"
  by (simp_all add: load_def split: option.splits sum.splits)

lemma load_same_file: "file_bytes s' = file_bytes s \<Longrightarrow> fst (load M s') = fst (load M s)"
  by (simp add: fst_load)

lemma load_after_save: "roundtrip M \<Longrightarrow> fst (load M (save M s d)) = Inr d"
  by (simp add: fst_load save_def roundtrip_def)

lemma edit_data_unfold:
  "edit_data M s body =
     (case fst (load M s) of
        Inl e \<Rightarrow> (Inl e, snd (load M s))
      | Inr d \<Rightarrow>
          (case body d of
             (Inl e, d') \<Rightarrow>
               (Inl e, if file_bytes s = None then snd (load M s) else (snd (load M s))\<lparr>data := d'\<rparr>)
           | (Inr a, d') \<Rightarrow> (Inr a, save M (snd (load M s)) d')))"
  by (cases "load M s") (auto simp: edit_data_def split: prod.splits sum.splits)

lemma edit_data_Inl:
  assumes "edit_data M s body = (Inl e, s')"
  shows "file_bytes s' = file_bytes s" and "n_writes s' = n_writes s" and "maxsize s' = maxsize s"
  using assms
  by (auto simp: edit_data_unfold load_frame split: sum.splits prod.splits if_splits)

lemma edit_data_Inr:
  assumes "edit_data M s body = (Inr a, s')"
  shows "\<exists>d d'. fst (load M s) = Inr d \<and> body d = (Inr a, d') \<and> s' = save M (snd (load M s)) d'"
  using assms
  by (auto simp: edit_data_unfold split: sum.splits prod.splits)

lemma uid_record_dict_body_unfold:
  "uid_record_dict_body identifier body d =
     (case body (run_set d identifier) of
        (r, uid_records') \<Rightarrow> (r, AList.update identifier uid_records' (snd (setdefault d identifier []))))"
  by (simp add: uid_record_dict_body_def run_set_def split: prod.splits)

lemma run_set_conv:
  "run_set d identifier = (case map_of d identifier of None \<Rightarrow> [] | Some uid_records \<Rightarrow> uid_records)"
  by (simp add: run_set_def setdefault_def split: option.splits)

lemma run_set_update: "run_set (AList.update identifier uid_records d) identifier = uid_records"
  by (simp add: run_set_conv update_conv')

lemma allocate_body_cases:
  "allocate_body m st rp ph now uid_records =
     (case counter_naming_strategy (map fst uid_records) m of
        Inl e \<Rightarrow> (Inl e, uid_records)
      | Inr uid \<Rightarrow> (Inr uid, AList.update uid (timestamp_status now (new_RunRecord st ph rp)) uid_records))"
  by (simp add: allocate_body_def)

lemma allocate_result:
  "fst (allocate M s identifier st rp ph now) =
     (case fst (load M s) of
        Inl e \<Rightarrow> Inl e
      | Inr d \<Rightarrow> counter_naming_strategy (map fst (run_set d identifier)) (maxsize s))"
  by (simp add: allocate_def edit_uid_record_dict_def edit_data_unfold uid_record_dict_body_unfold
      allocate_body_def split: sum.splits prod.splits)

lemma allocate_Inl:
  assumes "allocate M s identifier st rp ph now = (Inl e, s')"
  shows "file_bytes s' = file_bytes s" and "n_writes s' = n_writes s" and "maxsize s' = maxsize s"
  using assms edit_data_Inl[of M s _ e s']
  by (simp_all add: allocate_def edit_uid_record_dict_def)

lemma allocate_Inr:
  assumes "allocate M s identifier st rp ph now = (Inr uid, s')"
  shows "\<exists>d. fst (load M s) = Inr d \<and>
           counter_naming_strategy (map fst (run_set d identifier)) (maxsize s) = Inr uid \<and>
           s' = save M (snd (load M s))
                  (AList.update identifier
                     (AList.update uid (timestamp_status now (new_RunRecord st ph rp))
                        (run_set d identifier))
                     (snd (setdefault d identifier [])))"
proof -
  from assms obtain d d' where d: "fst (load M s) = Inr d"
    and b: "uid_record_dict_body identifier (allocate_body (maxsize s) st rp ph now) d = (Inr uid, d')"
    and s': "s' = save M (snd (load M s)) d'"
    unfolding allocate_def edit_uid_record_dict_def by (blast dest: edit_data_Inr)
  from b have "counter_naming_strategy (map fst (run_set d identifier)) (maxsize s) = Inr uid"
    and "d' = AList.update identifier
                     (AList.update uid (timestamp_status now (new_RunRecord st ph rp))
                        (run_set d identifier))
                     (snd (setdefault d identifier []))"
    by (auto simp: uid_record_dict_body_unfold allocate_body_cases split: sum.splits prod.splits)
  with d s' show ?thesis by blast
qed

lemma counter_naming_strategy_Inr:
  assumes "counter_naming_strategy existing m = Inr uid"
  shows "\<exists>k. int k < m \<and> uid = zero_pad (uid_width m) k \<and> uid \<notin> set existing \<and>
             (\<forall>j<k. zero_pad (uid_width m) j \<in> set existing)"
proof -
  from assms obtain k where "k < nat m" "uid = zero_pad (uid_width m) k" "uid \<notin> set existing"
    "\<forall>j. 0 \<le> j \<and> j < k \<longrightarrow> zero_pad (uid_width m) j \<in> set existing"
    unfolding counter_naming_strategy_def by (blast dest: first_free_Inr)
  then show ?thesis by (intro exI[of _ k]) auto
qed

lemma counter_naming_strategy_Inl:
  "counter_naming_strategy existing m = Inl e \<longleftrightarrow>
     e = CapacityExceeded \<and> (\<forall>j. int j < m \<longrightarrow> zero_pad (uid_width m) j \<in> set existing)"
proof -
  have "(\<forall>j. (0::nat) \<le> j \<and> j < nat m \<longrightarrow> zero_pad (uid_width m) j \<in> set existing) \<longleftrightarrow>
        (\<forall>j. int j < m \<longrightarrow> zero_pad (uid_width m) j \<in> set existing)"
    by (metis le0 zless_nat_eq_int_zless)
  then show ?thesis
    unfolding counter_naming_strategy_def first_free_Inl by simp
qed

subsection \<open>Logging and queries\<close>

lemma lookup_None_iff:
  "lookup d identifier uid = None \<longleftrightarrow>
     identifier \<notin> fst ` set d \<or> uid \<notin> fst ` set (run_set d identifier)"
proof (cases "map_of d identifier")
  case None
  then have "identifier \<notin> fst ` set d" by (simp add: map_of_eq_None_iff)
  with None show ?thesis by (simp add: lookup_def)
next
  case (Some uid_records)
  then have "identifier \<in> fst ` set d" by (metis map_of_eq_None_iff option.distinct(1))
  with Some show ?thesis by (simp add: lookup_def run_set_conv map_of_eq_None_iff)
qed

lemma get_record_result:
  "fst (get_record M s identifier uid) =
     (case fst (load M s) of
        Inl e \<Rightarrow> Inl e
      | Inr d \<Rightarrow>
          (case lookup d identifier uid of
             None \<Rightarrow> Inl (no_run_found identifier uid)
           | Some r \<Rightarrow> Inr r))"
  by (cases "load M s") (auto simp: get_record_def lookup_def split: sum.splits option.splits)

lemma get_record_state: "snd (get_record M s identifier uid) = snd (load M s)"
  by (cases "load M s") (auto simp: get_record_def split: sum.splits option.splits)

lemma setdefault_present:
  "map_of (snd (setdefault d k v)) k = Some (fst (setdefault d k v))"
  by (simp add: setdefault_def map_add_def split: option.splits)

lemma record_body_cases:
  "record_body identifier uid body records_dict =
     (case map_of records_dict uid of
        None \<Rightarrow> (Inl (no_run_found identifier uid), records_dict)
      | Some record \<Rightarrow> (fst (body record), AList.update uid (snd (body record)) records_dict))"
  by (simp add: record_body_def split: option.splits prod.splits)

lemma log_body_result: "fst (log_body st pd now record) = Inr ()"
  by (simp add: log_body_def Let_def)

lemma lookup_run_set: "lookup d identifier uid = map_of (run_set d identifier) uid"
  by (simp add: lookup_def run_set_conv split: option.splits)

text \<open>The document that a successful \<open>log\<close> saves.\<close>

lemma log_unfold:
  assumes "st \<noteq> None \<or> truthy_dict pd"
  shows "log M s identifier uid st pd now =
     (case fst (load M s) of
        Inl e \<Rightarrow> (Inl e, snd (load M s))
      | Inr d \<Rightarrow>
          (case lookup d identifier uid of
             None \<Rightarrow>
               (Inl (no_run_found identifier uid),
                if file_bytes s = None then snd (load M s)
                else (snd (load M s))\<lparr>data := snd (setdefault d identifier [])\<rparr>)
           | Some r \<Rightarrow>
               (Inr (),
                save M (snd (load M s))
                  (AList.update identifier
                     (AList.update uid (snd (log_body st pd now r)) (run_set d identifier))
                     (snd (setdefault d identifier []))))))"
proof (cases "fst (load M s)")
  case (Inl e)
  with assms show ?thesis
    by (simp add: log_def edit_record_def edit_uid_record_dict_def edit_data_unfold)
next
  case (Inr d)
  have triv: "AList.update identifier (run_set d identifier) (snd (setdefault d identifier [])) =
        snd (setdefault d identifier [])"
    by (rule update_triv) (simp add: run_set_def setdefault_present)
  show ?thesis
  proof (cases "lookup d identifier uid")
    case None
    with Inr assms triv show ?thesis
      by (simp add: log_def edit_record_def edit_uid_record_dict_def edit_data_unfold
          uid_record_dict_body_unfold record_body_cases lookup_run_set)
  next
    case (Some r)
    with Inr assms show ?thesis
      by (simp add: log_def edit_record_def edit_uid_record_dict_def edit_data_unfold
          uid_record_dict_body_unfold record_body_cases lookup_run_set log_body_result)
  qed
qed

lemma log_noop: "log M s identifier uid None None now = (Inr (), s)"
  by (simp add: log_def truthy_dict_def)

lemma log_noop_empty: "log M s identifier uid None (Some []) now = (Inr (), s)"
  by (simp add: log_def truthy_dict_def)

lemma log_Inl:
  assumes "log M s identifier uid st pd now = (Inl e, s')"
  shows "file_bytes s' = file_bytes s" and "n_writes s' = n_writes s"
proof -
  have t: "\<not> (\<not> (st \<noteq> None \<or> truthy_dict pd))"
  proof
    assume "\<not> (st \<noteq> None \<or> truthy_dict pd)"
    then have "log M s identifier uid st pd now = (Inr (), s)" by (simp add: log_def)
    with assms show False by simp
  qed
  then have "log M s identifier uid st pd now =
      edit_data M s (uid_record_dict_body identifier
        (record_body identifier uid (log_body st pd now)))"
    unfolding log_def edit_record_def edit_uid_record_dict_def by (simp only: if_False)
  with assms have "edit_data M s (uid_record_dict_body identifier
      (record_body identifier uid (log_body st pd now))) = (Inl e, s')"
    by simp
  then show "file_bytes s' = file_bytes s" and "n_writes s' = n_writes s"
    by (rule edit_data_Inl)+
qed

lemma get_uid_record_dict_result:
  "fst (get_uid_record_dict M s identifier) =
     (case fst (load M s) of
        Inl e \<Rightarrow> Inl e
      | Inr d \<Rightarrow>
          (case map_of d identifier of
             None \<Rightarrow> Inl (no_runs_found identifier)
           | Some uid_records \<Rightarrow> Inr uid_records))"
  by (cases "load M s") (auto simp: get_uid_record_dict_def split: sum.splits option.splits)

lemma find_by_param_hash_result:
  "fst (find_by_param_hash M s identifier (Some h)) =
     (case fst (get_uid_record_dict M s identifier) of
        Inl e \<Rightarrow> Inl e
      | Inr uid_records \<Rightarrow> Inr (find (\<lambda>(u, r). param_hash r = Some h) uid_records))"
  by (cases "get_uid_record_dict M s identifier")
    (auto simp: find_by_param_hash_def split: sum.splits)

lemma lookup_setdefault: "lookup (snd (setdefault d identifier [])) i u = lookup d i u"
  by (auto simp: lookup_def setdefault_def map_add_def split: option.splits)

lemma load_sample: "fst (load plain_adapter sample_ledger) = Inr sample_document"
  by (simp add: load_def plain_adapter_def sample_ledger_def)

lemma find_first_match:
  "case find P xs of
     None \<Rightarrow> \<forall>i<length xs. \<not> P (xs ! i)
   | Some x \<Rightarrow> \<exists>i<length xs. xs ! i = x \<and> P x \<and> (\<forall>j<i. \<not> P (xs ! j))"
proof (cases "find P xs")
  case None
  then have "\<forall>x\<in>set xs. \<not> P x" by (simp add: find_None_iff)
  with None show ?thesis by simp
next
  case (Some x)
  then obtain i where "i < length xs" "P (xs ! i)" "x = xs ! i" "\<forall>j<i. \<not> P (xs ! j)"
    unfolding find_Some_iff by blast
  with Some show ?thesis by auto
qed

subsection \<open>Allocation\<close>

lemma allocate_fresh:
  assumes "allocate M s identifier st rp ph now = (Inr uid, s')"
  shows "\<exists>d k. fst (load M s) = Inr d \<and> int k < maxsize s \<and>
           uid = zero_pad (uid_width (maxsize s)) k \<and> dec_val uid = k \<and>
           length uid = uid_width (maxsize s) \<and>
           uid \<notin> fst ` set (run_set d identifier) \<and>
           (\<forall>j<k. zero_pad (uid_width (maxsize s)) j \<in> fst ` set (run_set d identifier))"
proof -
  from allocate_Inr[OF assms] obtain d where d: "fst (load M s) = Inr d"
    and c: "counter_naming_strategy (map fst (run_set d identifier)) (maxsize s) = Inr uid"
    by blast
  from counter_naming_strategy_Inr[OF c] obtain k where k: "int k < maxsize s"
    "uid = zero_pad (uid_width (maxsize s)) k" "uid \<notin> set (map fst (run_set d identifier))"
    "\<forall>j<k. zero_pad (uid_width (maxsize s)) j \<in> set (map fst (run_set d identifier))"
    by blast
  from k(1,2) have "dec_val uid = k" "length uid = uid_width (maxsize s)"
    by (simp_all add: dec_val_zero_pad length_zero_pad)
  with d k show ?thesis by (intro exI[of _ d] exI[of _ k]) simp
qed

lemma allocate_step:
  assumes "roundtrip M" and "allocate M s identifier st rp ph now = (r, s')"
  shows "case r of
           Inl e \<Rightarrow> stored_uids M s' identifier = stored_uids M s identifier
         | Inr u \<Rightarrow> u \<notin> stored_uids M s identifier \<and>
                    stored_uids M s' identifier = insert u (stored_uids M s identifier)"
proof (cases r)
  case (Inl e)
  with assms(2) have "file_bytes s' = file_bytes s" by (simp add: allocate_Inl)
  then have "fst (load M s') = fst (load M s)" by (rule load_same_file)
  with Inl show ?thesis by (simp add: stored_uids_def)
next
  case (Inr u)
  with assms(2) have a: "allocate M s identifier st rp ph now = (Inr u, s')" by simp
  from allocate_Inr[OF a] obtain d where d: "fst (load M s) = Inr d"
    and s': "s' = save M (snd (load M s))
                  (AList.update identifier
                     (AList.update u (timestamp_status now (new_RunRecord st ph rp))
                        (run_set d identifier))
                     (snd (setdefault d identifier [])))"
    by blast
  from allocate_fresh[OF a] d have fresh: "u \<notin> fst ` set (run_set d identifier)" by auto
  from s' assms(1) have "stored_uids M s' identifier = insert u (fst ` set (run_set d identifier))"
    by (simp add: stored_uids_def load_after_save run_set_update dom_update)
  with d fresh Inr show ?thesis by (simp add: stored_uids_def)
qed

lemma allocate_seq_uids:
  assumes "roundtrip M" and "allocate_seq M s identifier calls = (rs, s')"
  shows "distinct (returned rs) \<and> set (returned rs) \<inter> stored_uids M s identifier = {} \<and>
         stored_uids M s' identifier = stored_uids M s identifier \<union> set (returned rs)"
  using assms(2)
proof (induction calls arbitrary: s rs)
  case Nil
  then show ?case by simp
next
  case (Cons c calls)
  obtain st rp ph now where c: "c = (st, rp, ph, now)" by (cases c) auto
  obtain r s1 where a: "allocate M s identifier st rp ph now = (r, s1)" by fastforce
  obtain rs1 where q: "allocate_seq M s1 identifier calls = (rs1, s')" and rs: "rs = r # rs1"
    using Cons.prems c a by (auto split: prod.splits)
  note ih = Cons.IH[OF q]
  note st = allocate_step[OF assms(1) a]
  show ?case
  proof (cases r)
    case (Inl e)
    with ih st rs show ?thesis by simp
  next
    case (Inr u)
    with ih st rs show ?thesis by auto
  qed
qed

lemma allocate_seq_append:
  "allocate_seq M s identifier (xs @ ys) =
     (case allocate_seq M s identifier xs of
        (rs, s1) \<Rightarrow>
          (case allocate_seq M s1 identifier ys of
             (rs', s2) \<Rightarrow> (rs @ rs', s2)))"
  by (induction xs arbitrary: s) (auto split: prod.splits)

lemma length_allocate_seq: "length (fst (allocate_seq M s identifier calls)) = length calls"
proof (induction calls arbitrary: s)
  case Nil
  then show ?case by simp
next
  case (Cons c calls)
  obtain st rp ph now where c: "c = (st, rp, ph, now)" by (cases c) auto
  obtain r s1 where a: "allocate M s identifier st rp ph now = (r, s1)" by fastforce
  from Cons.IH[of s1] c a show ?case
    by (cases "allocate_seq M s1 identifier calls") simp
qed

lemma allocate_seq_nth:
  assumes "n < length calls" and "calls ! n = (st, rp, ph, now)"
  shows "fst (allocate_seq M s identifier calls) ! n =
         fst (allocate M (snd (allocate_seq M s identifier (take n calls))) identifier st rp ph now)"
proof -
  have "calls = take n calls @ (st, rp, ph, now) # drop (Suc n) calls"
    using assms by (metis id_take_nth_drop)
  then have "fst (allocate_seq M s identifier calls) ! n =
     fst (allocate_seq M s identifier (take n calls @ (st, rp, ph, now) # drop (Suc n) calls)) ! n"
    by simp
  also have "\<dots> = fst (allocate M (snd (allocate_seq M s identifier (take n calls))) identifier st rp ph now)"
    using assms(1) length_allocate_seq[of M s "identifier" "take n calls"]
    by (auto simp: allocate_seq_append nth_append split: prod.splits)
  finally show ?thesis .
qed

lemma allocate_seq_absent_before:
  assumes "n < length calls" and "fst (allocate_seq M s identifier calls) ! n = Inr u"
  shows "u \<notin> stored_uids M (snd (allocate_seq M s identifier (take n calls))) identifier"
proof -
  obtain st rp ph now where c: "calls ! n = (st, rp, ph, now)" by (cases "calls ! n") auto
  let ?s = "snd (allocate_seq M s identifier (take n calls))"
  have "fst (allocate_seq M s identifier calls) ! n = fst (allocate M ?s identifier st rp ph now)"
    by (rule allocate_seq_nth[OF assms(1) c])
  with assms(2) have "fst (allocate M ?s identifier st rp ph now) = Inr u" by simp
  then obtain s' where "allocate M ?s identifier st rp ph now = (Inr u, s')"
    by (cases "allocate M ?s identifier st rp ph now") auto
  from allocate_fresh[OF this] show ?thesis
    by (auto simp: stored_uids_def)
qed

lemma save_maxsize: "maxsize (save M s d) = maxsize s"
  by (simp add: save_def)

lemma allocate_success_step:
  assumes "roundtrip M" and "allocate M s identifier st rp ph now = (Inr u, s')"
  shows "\<exists>d d'. fst (load M s) = Inr d \<and> fst (load M s') = Inr d' \<and>
           fst ` set (run_set d' identifier) = insert u (fst ` set (run_set d identifier)) \<and>
           maxsize s' = maxsize s"
proof -
  from allocate_Inr[OF assms(2)] obtain d where d: "fst (load M s) = Inr d"
    and s': "s' = save M (snd (load M s))
                  (AList.update identifier
                     (AList.update u (timestamp_status now (new_RunRecord st ph rp))
                        (run_set d identifier))
                     (snd (setdefault d identifier [])))"
    by blast
  let ?d' = "AList.update identifier
                     (AList.update u (timestamp_status now (new_RunRecord st ph rp))
                        (run_set d identifier))
                     (snd (setdefault d identifier []))"
  from s' assms(1) have "fst (load M s') = Inr ?d'" by (simp add: load_after_save)
  moreover have "fst ` set (run_set ?d' identifier) = insert u (fst ` set (run_set d identifier))"
    by (simp add: run_set_update dom_update)
  moreover from s' have "maxsize s' = maxsize s" by (simp add: save_maxsize load_frame)
  ultimately show ?thesis using d by blast
qed

lemma counter_naming_strategy_prefix:
  assumes "set existing = zero_pad (uid_width m) ` {..<k}" and "int k < m"
  shows "counter_naming_strategy existing m = Inr (zero_pad (uid_width m) k)"
proof (cases "counter_naming_strategy existing m")
  case (Inl e)
  then have "zero_pad (uid_width m) k \<in> set existing"
    using assms(2) by (simp add: counter_naming_strategy_Inl)
  with assms(1) obtain j where "j < k" "zero_pad (uid_width m) k = zero_pad (uid_width m) j"
    by auto
  then show ?thesis by (auto dest: zero_pad_inj)
next
  case (Inr u)
  from counter_naming_strategy_Inr[OF this] obtain k' where k': "u = zero_pad (uid_width m) k'"
    "u \<notin> set existing" "\<forall>j<k'. zero_pad (uid_width m) j \<in> set existing"
    by blast
  have "\<not> k' < k" using k'(1,2) assms(1) by auto
  moreover have "\<not> k < k'"
  proof
    assume "k < k'"
    with k'(3) have "zero_pad (uid_width m) k \<in> set existing" by simp
    with assms(1) obtain j where "j < k" "zero_pad (uid_width m) k = zero_pad (uid_width m) j"
      by auto
    then show False by (auto dest: zero_pad_inj)
  qed
  ultimately have "k' = k" by simp
  with Inr k'(1) show ?thesis by simp
qed

lemma allocate_seq_prefix:
  assumes "roundtrip M"
  shows "fst (load M s) = Inr d \<Longrightarrow>
         fst ` set (run_set d identifier) = zero_pad (uid_width (maxsize s)) ` {..<k} \<Longrightarrow>
         int (k + length calls) \<le> maxsize s \<Longrightarrow>
         fst (allocate_seq M s identifier calls) =
           map (\<lambda>j. Inr (zero_pad (uid_width (maxsize s)) j)) [k..<k + length calls] \<and>
         maxsize (snd (allocate_seq M s identifier calls)) = maxsize s \<and>
         (\<exists>d'. fst (load M (snd (allocate_seq M s identifier calls))) = Inr d' \<and>
               fst ` set (run_set d' identifier) =
                 zero_pad (uid_width (maxsize s)) ` {..<k + length calls})"
proof (induction calls arbitrary: s d k)
  case Nil
  then show ?case by simp
next
  case (Cons c calls)
  obtain st rp ph now where c: "c = (st, rp, ph, now)" by (cases c) auto
  let ?w = "uid_width (maxsize s)"
  from Cons.prems have k: "int k < maxsize s" by simp
  have "fst (allocate M s identifier st rp ph now) = Inr (zero_pad ?w k)"
    using Cons.prems(1,2) k
    by (simp add: allocate_result counter_naming_strategy_prefix)
  then obtain s1 where a: "allocate M s identifier st rp ph now = (Inr (zero_pad ?w k), s1)"
    by (cases "allocate M s identifier st rp ph now") auto
  from allocate_success_step[OF assms a] Cons.prems(1) obtain d1 where
    d1: "fst (load M s1) = Inr d1"
    and keys: "fst ` set (run_set d1 identifier) = insert (zero_pad ?w k) (fst ` set (run_set d identifier))"
    and m: "maxsize s1 = maxsize s"
    by auto
  have keys1: "fst ` set (run_set d1 identifier) = zero_pad (uid_width (maxsize s1)) ` {..<Suc k}"
    using keys Cons.prems(2) m by (auto simp: lessThan_Suc)
  have len: "int (Suc k + length calls) \<le> maxsize s1"
    using Cons.prems(3) m by simp
  let ?F = "\<lambda>j. Inr (zero_pad ?w j) :: error + string"
  let ?s' = "snd (allocate_seq M s1 identifier calls)"
  from Cons.IH[OF d1 keys1 len] m
  have ih1: "fst (allocate_seq M s1 identifier calls) = map ?F [Suc k..<Suc k + length calls]"
    and ih2: "maxsize ?s' = maxsize s"
    and ih3: "\<exists>d'. fst (load M ?s') = Inr d' \<and>
               fst ` set (run_set d' identifier) = zero_pad ?w ` {..<Suc k + length calls}"
    by (simp_all only:)
  have len': "k + length (c # calls) = Suc k + length calls" by simp
  have "k < k + length (c # calls)" by simp
  then have "[k..<k + length (c # calls)] = k # [Suc k..<k + length (c # calls)]"
    by (rule upt_conv_Cons)
  then have upt: "[k..<k + length (c # calls)] = k # [Suc k..<Suc k + length calls]"
    by (simp only: len')
  have f1: "fst (allocate_seq M s identifier (c # calls)) =
          Inr (zero_pad ?w k) # fst (allocate_seq M s1 identifier calls)"
    and f2: "snd (allocate_seq M s identifier (c # calls)) = ?s'"
    using a c by (simp_all split: prod.splits)
  have "fst (allocate_seq M s identifier (c # calls)) = map ?F [k..<k + length (c # calls)]"
    by (simp only: f1 ih1 upt list.map)
  moreover have "maxsize (snd (allocate_seq M s identifier (c # calls))) = maxsize s"
    by (simp only: f2 ih2)
  moreover have "\<exists>d'. fst (load M (snd (allocate_seq M s identifier (c # calls)))) = Inr d' \<and>
               fst ` set (run_set d' identifier) = zero_pad ?w ` {..<k + length (c # calls)}"
    using ih3 by (simp only: f2 len')
  ultimately show ?case by blast
qed

lemma allocate_seq_snoc:
  "fst (allocate_seq M s identifier (xs @ [(st, rp, ph, now)])) =
     fst (allocate_seq M s identifier xs) @
       [fst (allocate M (snd (allocate_seq M s identifier xs)) identifier st rp ph now)]"
  by (simp add: allocate_seq_append split: prod.splits)

lemma allocate_seq_fill:
  assumes "roundtrip M" and "fst (load M s) = Inr d" and "run_set d identifier = []"
    and "length calls = nat (maxsize s) + 1"
  shows "fst (allocate_seq M s identifier calls) =
           map (\<lambda>j. Inr (zero_pad (uid_width (maxsize s)) j)) [0..<nat (maxsize s)] @
             [Inl CapacityExceeded]"
proof -
  from assms(4) have ne: "calls \<noteq> []" by auto
  obtain st rp ph now where l: "last calls = (st, rp, ph, now)" by (cases "last calls") auto
  let ?xs = "butlast calls"
  let ?s1 = "snd (allocate_seq M s identifier ?xs)"
  let ?w = "uid_width (maxsize s)"
  have calls: "calls = ?xs @ [(st, rp, ph, now)]" using ne l by (metis append_butlast_last_id)
  have len: "length ?xs = nat (maxsize s)" using assms(4) by simp
  have keys0: "fst ` set (run_set d identifier) = zero_pad ?w ` {..<0}"
    using assms(3) by simp
  have "int (0 + length ?xs) \<le> maxsize s \<or> maxsize s < 0" using len by auto
  have pre: "fst (allocate_seq M s identifier ?xs) = map (\<lambda>j. Inr (zero_pad ?w j)) [0..<nat (maxsize s)]
      \<and> maxsize ?s1 = maxsize s
      \<and> (\<exists>d'. fst (load M ?s1) = Inr d' \<and> fst ` set (run_set d' identifier) = zero_pad ?w ` {..<nat (maxsize s)})"
  proof (cases "0 \<le> maxsize s")
    case True
    with len have "int (0 + length ?xs) \<le> maxsize s" by simp
    from allocate_seq_prefix[OF assms(1,2) keys0 this] len show ?thesis by simp
  next
    case False
    from False have "nat (maxsize s) = 0" by simp
    with len have "length ?xs = 0" by (simp only:)
    then have "?xs = []" by (simp only: length_0_conv)
    with False assms(2,3) show ?thesis by simp
  qed
  then obtain d1 where d1: "fst (load M ?s1) = Inr d1"
    and full: "fst ` set (run_set d1 identifier) = zero_pad ?w ` {..<nat (maxsize s)}"
    and m: "maxsize ?s1 = maxsize s"
    by blast
  have "counter_naming_strategy (map fst (run_set d1 identifier)) (maxsize s) = Inl CapacityExceeded"
    unfolding counter_naming_strategy_Inl using full by auto
  with d1 m have "fst (allocate M ?s1 identifier st rp ph now) = Inl CapacityExceeded"
    by (simp add: allocate_result)
  with pre have "fst (allocate_seq M s identifier (?xs @ [(st, rp, ph, now)])) =
           map (\<lambda>j. Inr (zero_pad ?w j)) [0..<nat (maxsize s)] @ [Inl CapacityExceeded]"
    by (simp only: allocate_seq_snoc)
  with calls show ?thesis by simp
qed

lemma capacity_error_iff:
  assumes "fst (load M s) = Inr d"
  shows "fst (allocate M s identifier st rp ph now) = Inl CapacityExceeded \<longleftrightarrow>
         (\<forall>j. int j < maxsize s \<longrightarrow>
              zero_pad (uid_width (maxsize s)) j \<in> fst ` set (run_set d identifier))"
  using assms by (simp add: allocate_result counter_naming_strategy_Inl)

subsection \<open>What a call changes in the document\<close>

lemma lookup_update:
  "lookup (AList.update i uid_records d) i' u =
     (if i' = i then map_of uid_records u else lookup d i' u)"
  by (simp add: lookup_def update_conv')

lemma lookup_nested_update:
  "lookup (AList.update i (AList.update u r (run_set d i)) (snd (setdefault d i []))) i' u' =
     (if i' = i \<and> u' = u then Some r else lookup d i' u')"
  by (simp add: lookup_update update_conv' lookup_setdefault lookup_run_set[symmetric])

lemma get_record_Inr:
  assumes "fst (get_record M s identifier uid) = Inr r"
  shows "\<exists>d. fst (load M s) = Inr d \<and> lookup d identifier uid = Some r"
  using assms by (auto simp: get_record_result split: sum.splits option.splits)

lemma log_effect:
  assumes "roundtrip M" and "fst (load M s) = Inr d" and "lookup d i u = Some r"
    and "st \<noteq> None \<or> truthy_dict pd"
  shows "fst (log M s i u st pd now) = Inr ()"
    and "\<exists>d'. fst (load M (snd (log M s i u st pd now))) = Inr d' \<and>
           (\<forall>i' u'. lookup d' i' u' =
              (if i' = i \<and> u' = u then Some (snd (log_body st pd now r)) else lookup d i' u'))"
proof -
  let ?d' = "AList.update i (AList.update u (snd (log_body st pd now r)) (run_set d i))
               (snd (setdefault d i []))"
  have l: "log M s i u st pd now = (Inr (), save M (snd (load M s)) ?d')"
    using assms(2,3) by (simp add: log_unfold[OF assms(4)])
  then show "fst (log M s i u st pd now) = Inr ()" by simp
  from l assms(1) have "fst (load M (snd (log M s i u st pd now))) = Inr ?d'"
    by (simp add: load_after_save)
  then show "\<exists>d'. fst (load M (snd (log M s i u st pd now))) = Inr d' \<and>
           (\<forall>i' u'. lookup d' i' u' =
              (if i' = i \<and> u' = u then Some (snd (log_body st pd now r)) else lookup d i' u'))"
    by (intro exI[of _ ?d']) (simp only: lookup_nested_update simp_thms)
qed

lemma allocate_effect:
  assumes "roundtrip M" and "allocate M s i st rp ph now = (Inr uid, s')"
  shows "\<exists>d d'. fst (load M s) = Inr d \<and> fst (load M s') = Inr d' \<and> lookup d i uid = None \<and>
           (\<forall>i' u'. lookup d' i' u' =
              (if i' = i \<and> u' = uid then Some (timestamp_status now (new_RunRecord st ph rp))
               else lookup d i' u'))"
proof -
  from allocate_Inr[OF assms(2)] obtain d where d: "fst (load M s) = Inr d"
    and s': "s' = save M (snd (load M s))
                  (AList.update i
                     (AList.update uid (timestamp_status now (new_RunRecord st ph rp)) (run_set d i))
                     (snd (setdefault d i [])))"
    by blast
  let ?d' = "AList.update i
                     (AList.update uid (timestamp_status now (new_RunRecord st ph rp)) (run_set d i))
                     (snd (setdefault d i []))"
  from allocate_fresh[OF assms(2)] d have "uid \<notin> fst ` set (run_set d i)" by auto
  then have n: "lookup d i uid = None"
    by (simp add: lookup_run_set map_of_eq_None_iff)
  from s' assms(1) have "fst (load M s') = Inr ?d'" by (simp add: load_after_save)
  with d n show ?thesis
    by (intro exI[of _ d] exI[of _ ?d']) (simp only: lookup_nested_update simp_thms)
qed

lemma map_of_dict_update: "map_of (dict_update d other) = map_of d ++ map_of (rev other)"
proof (induction other arbitrary: d)
  case Nil
  then show ?case by simp
next
  case (Cons p other)
  obtain k v where p: "p = (k, v)" by (cases p) auto
  have "map_of (dict_update d (p # other)) = map_of (AList.update k v d) ++ map_of (rev other)"
    using Cons.IH[of "AList.update k v d"] p by simp
  also have "\<dots> = (map_of d)(k \<mapsto> v) ++ map_of (rev other)"
    by (simp only: update_conv')
  also have "\<dots> = map_of d ++ map_of (rev (p # other))"
    by (rule ext) (simp add: p map_add_def split: option.splits)
  finally show ?case .
qed

lemma dom_dict_update: "fst ` set (dict_update d other) = fst ` set d \<union> fst ` set other"
proof (induction other arbitrary: d)
  case Nil
  then show ?case by simp
next
  case (Cons p other)
  obtain k v where p: "p = (k, v)" by (cases p) auto
  have "fst ` set (dict_update d (p # other)) = fst ` set (AList.update k v d) \<union> fst ` set other"
    using Cons.IH[of "AList.update k v d"] p by simp
  also have "\<dots> = fst ` set d \<union> fst ` set (p # other)"
    by (simp only: dom_update) (auto simp: p)
  finally show ?case .
qed

lemma files_log_body:
  "files (snd (log_body st pd now r)) =
     (case pd of None \<Rightarrow> files r | Some other \<Rightarrow> dict_update (files r) other)"
  by (cases pd; cases st; cases "the pd") (simp_all add: log_body_def timestamp_status_def)

lemma files_log_body_subset: "fst ` set (files r) \<subseteq> fst ` set (files (snd (log_body st pd now r)))"
  by (simp add: files_log_body dom_dict_update split: option.splits)

lemma log_body_absent_identifier:
  assumes "identifier \<notin> fst ` set d"
  shows "uid_record_dict_body identifier (record_body identifier uid (log_body st pd now)) d =
           (Inl (no_run_found identifier uid), d @ [(identifier, [])])"
proof -
  from assms have n: "map_of d identifier = None" by (simp add: map_of_eq_None_iff)
  then have "setdefault d identifier [] = ([], d @ [(identifier, [])])"
    by (simp add: setdefault_def)
  moreover have "AList.update identifier [] (d @ [(identifier, [])]) = d @ [(identifier, [])]"
    by (rule update_triv) (simp add: n map_add_def)
  ultimately show ?thesis
    by (simp add: uid_record_dict_body_def record_body_def)
qed

lemma map_of_rev_distinct: "distinct (map fst xs) \<Longrightarrow> map_of (rev xs) = map_of xs"
proof (induction xs)
  case Nil
  then show ?case by simp
next
  case (Cons p xs)
  obtain k v where p: "p = (k, v)" by (cases p) auto
  from Cons have ih: "map_of (rev xs) = map_of xs" by simp
  from Cons.prems p have n: "map_of xs k = None" by (simp add: map_of_eq_None_iff)
  have "map_of (rev (p # xs)) = map_of [(k, v)] ++ map_of (rev xs)"
    by (simp only: rev.simps map_of_append p)
  also have "\<dots> = map_of [(k, v)] ++ map_of xs" by (simp only: ih)
  also have "\<dots> = map_of (p # xs)"
  proof (rule ext)
    fix a
    show "(map_of [(k, v)] ++ map_of xs) a = map_of (p # xs) a"
    proof (cases "a = k")
      case True
      with n p show ?thesis by (simp add: map_add_def)
    next
      case False
      with p show ?thesis by (cases "map_of xs a") (simp_all add: map_add_def)
    qed
  qed
  finally show ?case .
qed

lemma get_record_same_file:
  "file_bytes s' = file_bytes s \<Longrightarrow>
     fst (get_record M s' identifier uid) = fst (get_record M s identifier uid)"
  by (simp add: get_record_result fst_load)

lemma log_then_get_record:
  assumes "roundtrip M" and "fst (get_record M s identifier uid) = Inr r"
    and "st \<noteq> None \<or> truthy_dict pd"
  shows "fst (log M s identifier uid st pd now) = Inr ()"
    and "fst (get_record M (snd (log M s identifier uid st pd now)) identifier uid) =
           Inr (snd (log_body st pd now r))"
proof -
  from get_record_Inr[OF assms(2)] obtain d where d: "fst (load M s) = Inr d"
    and l: "lookup d identifier uid = Some r"
    by blast
  show "fst (log M s identifier uid st pd now) = Inr ()"
    using assms(1) d l assms(3) by (rule log_effect(1))
  from log_effect(2)[OF assms(1) d l assms(3), of now] obtain d' where
    "fst (load M (snd (log M s identifier uid st pd now))) = Inr d'"
    "lookup d' identifier uid = Some (snd (log_body st pd now r))"
    by auto
  then show "fst (get_record M (snd (log M s identifier uid st pd now)) identifier uid) =
           Inr (snd (log_body st pd now r))"
    by (simp add: get_record_result)
qed

lemma log_keeps_files:
  assumes "roundtrip M" and "fst (get_record M s i u) = Inr r"
  shows "\<exists>r'. fst (get_record M (snd (log M s identifier uid st pd now)) i u) = Inr r' \<and>
              fst ` set (files r) \<subseteq> fst ` set (files r')"
proof (cases "st \<noteq> None \<or> truthy_dict pd")
  case False
  then have "log M s identifier uid st pd now = (Inr (), s)" by (simp add: log_def)
  with assms(2) show ?thesis by simp
next
  case t: True
  from get_record_Inr[OF assms(2)] obtain d where d: "fst (load M s) = Inr d"
    and l: "lookup d i u = Some r"
    by blast
  show ?thesis
  proof (cases "lookup d identifier uid")
    case None
    with d have "fst (log M s identifier uid st pd now) = Inl (no_run_found identifier uid)"
      by (simp add: log_unfold[OF t])
    then have "log M s identifier uid st pd now =
        (Inl (no_run_found identifier uid), snd (log M s identifier uid st pd now))"
      by (simp add: prod_eq_iff)
    then have "file_bytes (snd (log M s identifier uid st pd now)) = file_bytes s"
      by (rule log_Inl)
    then have "fst (get_record M (snd (log M s identifier uid st pd now)) i u) =
        fst (get_record M s i u)"
      by (rule get_record_same_file)
    with assms(2) have "fst (get_record M (snd (log M s identifier uid st pd now)) i u) = Inr r"
      by simp
    then show ?thesis by simp
  next
    case (Some r0)
    from log_effect(2)[OF assms(1) d Some t, of now] obtain d' where
      d': "fst (load M (snd (log M s identifier uid st pd now))) = Inr d'"
      and lk: "lookup d' i u =
           (if i = identifier \<and> u = uid then Some (snd (log_body st pd now r0)) else lookup d i u)"
      by auto
    show ?thesis
    proof (cases "i = identifier \<and> u = uid")
      case True
      with l Some have "r0 = r" by simp
      with True lk d' have "fst (get_record M (snd (log M s identifier uid st pd now)) i u) =
          Inr (snd (log_body st pd now r))"
        by (simp add: get_record_result)
      then show ?thesis using files_log_body_subset by blast
    next
      case False
      with lk l d' have "fst (get_record M (snd (log M s identifier uid st pd now)) i u) = Inr r"
        by (simp add: get_record_result)
      then show ?thesis by simp
    qed
  qed
qed

lemma allocate_keeps_records:
  assumes "roundtrip M" and "fst (get_record M s i u) = Inr r"
  shows "fst (get_record M (snd (allocate M s identifier st rp ph now)) i u) = Inr r"
proof (cases "fst (allocate M s identifier st rp ph now)")
  case (Inl e)
  then have "allocate M s identifier st rp ph now =
      (Inl e, snd (allocate M s identifier st rp ph now))"
    by (simp add: prod_eq_iff)
  then have "file_bytes (snd (allocate M s identifier st rp ph now)) = file_bytes s"
    by (rule allocate_Inl)
  then have "fst (get_record M (snd (allocate M s identifier st rp ph now)) i u) =
      fst (get_record M s i u)"
    by (rule get_record_same_file)
  with assms(2) show ?thesis by simp
next
  case (Inr new_uid)
  then have a: "allocate M s identifier st rp ph now =
      (Inr new_uid, snd (allocate M s identifier st rp ph now))"
    by (simp add: prod_eq_iff)
  from allocate_effect[OF assms(1) a] obtain d d' where d: "fst (load M s) = Inr d"
    and d': "fst (load M (snd (allocate M s identifier st rp ph now))) = Inr d'"
    and n: "lookup d identifier new_uid = None"
    and lk: "lookup d' i u =
           (if i = identifier \<and> u = new_uid
            then Some (timestamp_status now (new_RunRecord st ph rp)) else lookup d i u)"
    by auto
  from assms(2) d have l: "lookup d i u = Some r"
    by (auto simp: get_record_result split: option.splits)
  with n have "\<not> (i = identifier \<and> u = new_uid)" by auto
  with lk l d' show ?thesis by (simp add: get_record_result)
qed

lemma log_body_attach:
  "snd (log_body None (Some pd) now r) = (if pd \<noteq> [] then r\<lparr>files := dict_update (files r) pd\<rparr> else r)"
  by (simp add: log_body_def)

lemma attach_then_get_record:
  assumes "roundtrip M" and "fst (get_record M s identifier uid) = Inr r" and "pd \<noteq> []"
  shows "fst (get_record M (snd (attach_files M s identifier uid pd now)) identifier uid) =
           Inr (r\<lparr>files := dict_update (files r) pd\<rparr>)"
proof -
  from assms(3) have t: "(None :: Status option) \<noteq> None \<or> truthy_dict (Some pd)"
    by (simp add: truthy_dict_def)
  from log_then_get_record(2)[OF assms(1,2) t, of now] assms(3) show ?thesis
    by (simp add: attach_files_def log_body_attach)
qed

lemma query_frames:
  "file_bytes (snd (get_record M s i u)) = file_bytes s"
  "file_bytes (snd (get_uid_record_dict M s i)) = file_bytes s"
  "file_bytes (snd (find_by_param_hash M s i ph)) = file_bytes s"
proof -
  show "file_bytes (snd (get_record M s i u)) = file_bytes s"
    by (simp add: get_record_state load_frame)
  have g: "snd (get_uid_record_dict M s i) = snd (load M s)"
    by (cases "load M s") (auto simp: get_uid_record_dict_def split: sum.splits option.splits)
  then show f: "file_bytes (snd (get_uid_record_dict M s i)) = file_bytes s"
    by (simp add: load_frame)
  show "file_bytes (snd (find_by_param_hash M s i ph)) = file_bytes s"
  proof (cases ph)
    case None
    then show ?thesis by (simp add: find_by_param_hash_def)
  next
    case (Some h)
    then have "snd (find_by_param_hash M s i ph) = snd (get_uid_record_dict M s i)"
      by (cases "get_uid_record_dict M s i") (auto simp: find_by_param_hash_def split: sum.splits)
    with f show ?thesis by simp
  qed
qed

lemma log_files_merged:
  assumes "roundtrip M" and "fst (get_record M s identifier uid) = Inr r"
    and "distinct (map fst pd)"
  shows "fst (log M s identifier uid st (Some pd) now) = Inr ()"
    and "\<exists>r'. fst (get_record M (snd (log M s identifier uid st (Some pd) now)) identifier uid) = Inr r' \<and>
              map_of (files r') = map_of (files r) ++ map_of pd"
proof -
  have both: "fst (log M s identifier uid st (Some pd) now) = Inr () \<and>
    (\<exists>r'. fst (get_record M (snd (log M s identifier uid st (Some pd) now)) identifier uid) = Inr r' \<and>
              map_of (files r') = map_of (files r) ++ map_of pd)"
  proof (cases "st \<noteq> None \<or> truthy_dict (Some pd)")
    case True
    note l = log_then_get_record[OF assms(1,2) True, of now]
    have "map_of (files (snd (log_body st (Some pd) now r))) = map_of (files r) ++ map_of pd"
      using assms(3) by (simp add: files_log_body map_of_dict_update map_of_rev_distinct)
    with l show ?thesis by blast
  next
    case False
    then have pd: "pd = []" and "log M s identifier uid st (Some pd) now = (Inr (), s)"
      by (simp_all add: log_def truthy_dict_def)
    with assms(2) show ?thesis by simp
  qed
  from both show "fst (log M s identifier uid st (Some pd) now) = Inr ()" by blast
  from both show "\<exists>r'. fst (get_record M (snd (log M s identifier uid st (Some pd) now)) identifier uid) = Inr r' \<and>
              map_of (files r') = map_of (files r) ++ map_of pd" by blast
qed

lemma attach_example:
  assumes "roundtrip M" and "fst (get_record M s identifier uid) = Inr r" and "files r = []"
  shows "let s1 = snd (attach_files M s identifier uid [(''a'', ''x'')] t1);
             s2 = snd (attach_files M s1 identifier uid [(''b'', ''y'')] t2);
             s3 = snd (attach_files M s2 identifier uid [(''a'', ''z'')] t3)
         in fst (get_record M s2 identifier uid) = Inr (r\<lparr>files := [(''a'', ''x''), (''b'', ''y'')]\<rparr>) \<and>
            fst (get_record M s3 identifier uid) = Inr (r\<lparr>files := [(''a'', ''z''), (''b'', ''y'')]\<rparr>)"
proof -
  let ?s1 = "snd (attach_files M s identifier uid [(''a'', ''x'')] t1)"
  let ?s2 = "snd (attach_files M ?s1 identifier uid [(''b'', ''y'')] t2)"
  let ?s3 = "snd (attach_files M ?s2 identifier uid [(''a'', ''z'')] t3)"
  have g1: "fst (get_record M ?s1 identifier uid) = Inr (r\<lparr>files := [(''a'', ''x'')]\<rparr>)"
    using attach_then_get_record[OF assms(1,2), of "[(''a'', ''x'')]" t1] assms(3) by simp
  have g2: "fst (get_record M ?s2 identifier uid) = Inr (r\<lparr>files := [(''a'', ''x''), (''b'', ''y'')]\<rparr>)"
    using attach_then_get_record[OF assms(1) g1, of "[(''b'', ''y'')]" t2] by simp
  have g3: "fst (get_record M ?s3 identifier uid) = Inr (r\<lparr>files := [(''a'', ''z''), (''b'', ''y'')]\<rparr>)"
    using attach_then_get_record[OF assms(1) g2, of "[(''a'', ''z'')]" t3] by simp
  from g2 g3 show ?thesis by (simp only: Let_def simp_thms)
qed

subsection \<open>The claims\<close>

text \<open>
  Claim C1. Every uid that \<open>allocate\<close> returns is the zero-padded decimal string, of
  the width of \<open>maxsize - 1\<close>, of the smallest number \<open>k\<close> below \<open>maxsize\<close> whose
  padded form is not a key of the identifier's run-set as loaded from the file. In a
  row of allocations for one identifier, of any length, the uids returned are pairwise
  distinct (given that the file reads back as written), and each one is absent from
  the run-set stored just before its own call.
\<close>

theorem allocate_uid_smallest_unused:
  "(allocate M s identifier st rp ph now = (Inr uid, s') \<longrightarrow>
      (\<exists>d k. fst (load M s) = Inr d \<and> int k < maxsize s \<and>
             uid = zero_pad (uid_width (maxsize s)) k \<and> dec_val uid = k \<and>
             length uid = uid_width (maxsize s) \<and>
             uid \<notin> fst ` set (run_set d identifier) \<and>
             (\<forall>j<k. zero_pad (uid_width (maxsize s)) j \<in> fst ` set (run_set d identifier))))
   \<and> (roundtrip M \<longrightarrow> distinct (returned (fst (allocate_seq M s identifier calls))))
   \<and> (\<forall>n<length calls. \<forall>u.
         fst (allocate_seq M s identifier calls) ! n = Inr u \<longrightarrow>
         u \<notin> stored_uids M (snd (allocate_seq M s identifier (take n calls))) identifier)"
proof (intro conjI impI allI)
  assume "allocate M s identifier st rp ph now = (Inr uid, s')"
  then show "\<exists>d k. fst (load M s) = Inr d \<and> int k < maxsize s \<and>
             uid = zero_pad (uid_width (maxsize s)) k \<and> dec_val uid = k \<and>
             length uid = uid_width (maxsize s) \<and>
             uid \<notin> fst ` set (run_set d identifier) \<and>
             (\<forall>j<k. zero_pad (uid_width (maxsize s)) j \<in> fst ` set (run_set d identifier))"
    by (rule allocate_fresh)
next
  assume "roundtrip M"
  then show "distinct (returned (fst (allocate_seq M s identifier calls)))"
    using allocate_seq_uids[of M s "identifier" calls] by (cases "allocate_seq M s identifier calls") simp
next
  fix n u
  assume "n < length calls" "fst (allocate_seq M s identifier calls) ! n = Inr u"
  then show "u \<notin> stored_uids M (snd (allocate_seq M s identifier (take n calls))) identifier"
    by (rule allocate_seq_absent_before)
qed

theorem allocate_uid_smallest_unused_witness:
  "roundtrip plain_adapter \<and>
   allocate plain_adapter (fresh_ledger 3) ''exp'' PENDING ''.'' None 0 =
     (Inr ''0'', snd (allocate plain_adapter (fresh_ledger 3) ''exp'' PENDING ''.'' None 0)) \<and>
   (\<exists>d k. fst (load plain_adapter (fresh_ledger 3)) = Inr d \<and> int k < maxsize (fresh_ledger 3) \<and>
      ''0'' = zero_pad (uid_width (maxsize (fresh_ledger 3))) k \<and> dec_val ''0'' = k \<and>
      length ''0'' = uid_width (maxsize (fresh_ledger 3)) \<and>
      ''0'' \<notin> fst ` set (run_set d ''exp'') \<and>
      (\<forall>j<k. zero_pad (uid_width (maxsize (fresh_ledger 3))) j \<in> fst ` set (run_set d ''exp''))) \<and>
   distinct (returned (fst (allocate_seq plain_adapter (fresh_ledger 3) ''exp''
      [(PENDING, ''.'', None, 0), (PENDING, ''.'', Some 5, 1), (RUNNING, ''a'', None, 2)]))) \<and>
   fst (allocate_seq plain_adapter (fresh_ledger 3) ''exp''
      [(PENDING, ''.'', None, 0), (PENDING, ''.'', Some 5, 1), (RUNNING, ''a'', None, 2)]) ! 1 = Inr ''1'' \<and>
   ''1'' \<notin> stored_uids plain_adapter (snd (allocate_seq plain_adapter (fresh_ledger 3) ''exp''
      (take 1 [(PENDING, ''.'', None, 0), (PENDING, ''.'', Some 5, 1), (RUNNING, ''a'', None, 2)]))) ''exp''"
proof -
  have r: "roundtrip plain_adapter"
    by (simp add: roundtrip_def plain_adapter_def)
  have "fst (allocate plain_adapter (fresh_ledger 3) ''exp'' PENDING ''.'' None 0) = Inr ''0''"
    by code_simp
  then have a: "allocate plain_adapter (fresh_ledger 3) ''exp'' PENDING ''.'' None 0 =
     (Inr ''0'', snd (allocate plain_adapter (fresh_ledger 3) ''exp'' PENDING ''.'' None 0))"
    by (simp add: prod_eq_iff)
  have n: "fst (allocate_seq plain_adapter (fresh_ledger 3) ''exp''
      [(PENDING, ''.'', None, 0), (PENDING, ''.'', Some 5, 1), (RUNNING, ''a'', None, 2)]) ! 1 = Inr ''1''"
    by code_simp
  have l: "(1::nat) < length [(PENDING, ''.'', None::int option, 0::nat), (PENDING, ''.'', Some 5, 1), (RUNNING, ''a'', None, 2)]"
    by simp
  from allocate_uid_smallest_unused[of plain_adapter "fresh_ledger 3" "''exp''" PENDING "''.''" None 0 "''0''"
      "snd (allocate plain_adapter (fresh_ledger 3) ''exp'' PENDING ''.'' None 0)"
      "[(PENDING, ''.'', None, 0), (PENDING, ''.'', Some 5, 1), (RUNNING, ''a'', None, 2)]"] r a n l
  show ?thesis by blast
qed

text \<open>
  Claim C2. Once the file is loaded, \<open>allocate\<close> fails with the capacity error exactly
  when every number below \<open>maxsize\<close> has its padded form among the keys of the
  identifier's run-set. Starting from an empty or absent run-set, \<open>maxsize\<close>
  allocations in a row succeed and return the padded forms of \<open>0, ..., maxsize - 1\<close>
  in this order, and the next allocation fails with the capacity error.
\<close>

theorem allocate_capacity:
  "(fst (load M s) = Inr d \<longrightarrow>
      (fst (allocate M s identifier st rp ph now) = Inl CapacityExceeded) =
      (\<forall>j. int j < maxsize s \<longrightarrow>
           zero_pad (uid_width (maxsize s)) j \<in> fst ` set (run_set d identifier)))
   \<and> (roundtrip M \<and> fst (load M s) = Inr d \<and> run_set d identifier = [] \<and>
      length calls = nat (maxsize s) + 1 \<longrightarrow>
      fst (allocate_seq M s identifier calls) =
        map (\<lambda>j. Inr (zero_pad (uid_width (maxsize s)) j)) [0..<nat (maxsize s)] @
          [Inl CapacityExceeded])"
proof (intro conjI impI)
  assume "fst (load M s) = Inr d"
  then show "(fst (allocate M s identifier st rp ph now) = Inl CapacityExceeded) =
      (\<forall>j. int j < maxsize s \<longrightarrow>
           zero_pad (uid_width (maxsize s)) j \<in> fst ` set (run_set d identifier))"
    by (rule capacity_error_iff)
next
  assume "roundtrip M \<and> fst (load M s) = Inr d \<and> run_set d identifier = [] \<and>
      length calls = nat (maxsize s) + 1"
  then have "roundtrip M" "fst (load M s) = Inr d" "run_set d identifier = []"
    "length calls = nat (maxsize s) + 1"
    by blast+
  then show "fst (allocate_seq M s identifier calls) =
        map (\<lambda>j. Inr (zero_pad (uid_width (maxsize s)) j)) [0..<nat (maxsize s)] @
          [Inl CapacityExceeded]"
    by (rule allocate_seq_fill)
qed

theorem allocate_capacity_witness:
  "roundtrip plain_adapter \<and> fst (load plain_adapter (fresh_ledger 2)) = Inr [] \<and>
   run_set [] ''exp'' = [] \<and>
   length [(PENDING, ''.'', None :: int option, 0 :: nat), (PENDING, ''.'', Some 5, 1), (RUNNING, ''a'', None, 2)] =
     nat (maxsize (fresh_ledger 2)) + 1 \<and>
   fst (allocate_seq plain_adapter (fresh_ledger 2) ''exp''
      [(PENDING, ''.'', None, 0), (PENDING, ''.'', Some 5, 1), (RUNNING, ''a'', None, 2)]) =
     [Inr ''0'', Inr ''1'', Inl CapacityExceeded] \<and>
   ((fst (allocate plain_adapter (fresh_ledger 2) ''exp'' PENDING ''.'' None 0) = Inl CapacityExceeded) =
    (\<forall>j. int j < maxsize (fresh_ledger 2) \<longrightarrow>
         zero_pad (uid_width (maxsize (fresh_ledger 2))) j \<in> fst ` set (run_set [] ''exp'')))"
proof -
  have r: "roundtrip plain_adapter"
    by (simp add: roundtrip_def plain_adapter_def)
  have l: "fst (load plain_adapter (fresh_ledger 2)) = Inr []"
    by (simp add: load_def fresh_ledger_def)
  have e: "run_set [] ''exp'' = []"
    by (simp add: run_set_def setdefault_def)
  have n: "length [(PENDING, ''.'', None :: int option, 0 :: nat), (PENDING, ''.'', Some 5, 1), (RUNNING, ''a'', None, 2)] =
     nat (maxsize (fresh_ledger 2)) + 1"
    by (simp add: fresh_ledger_def)
  have v: "map (\<lambda>j. Inr (zero_pad (uid_width (maxsize (fresh_ledger 2))) j)) [0..<nat (maxsize (fresh_ledger 2))] @
          [Inl CapacityExceeded] = [Inr ''0'', Inr ''1'', Inl CapacityExceeded :: error + string]"
    by code_simp
  from allocate_capacity[of plain_adapter "fresh_ledger 2" "[]" "''exp''" PENDING "''.''" None 0
      "[(PENDING, ''.'', None, 0), (PENDING, ''.'', Some 5, 1), (RUNNING, ''a'', None, 2)]"] r l e n v
  show ?thesis by (simp only: simp_thms)
qed

text \<open>
  Claim C8. \<open>log\<close> with neither a status nor a path_dict returns at once, for any
  identifier and uid, present or not: the state of the ledger and of its file is the
  same, and nothing was read or written. The same holds for an empty path_dict.
\<close>

theorem log_without_arguments_is_noop:
  "log M s identifier uid None None now = (Inr (), s) \<and>
   log M s identifier uid None (Some []) now = (Inr (), s)"
  by (simp add: log_noop log_noop_empty)

theorem log_without_arguments_is_noop_witness:
  "log plain_adapter sample_ledger ''unknown_id'' ''000'' None None 0 = (Inr (), sample_ledger) \<and>
   log plain_adapter sample_ledger ''unknown_id'' ''000'' None (Some []) 0 = (Inr (), sample_ledger)"
  using log_without_arguments_is_noop[of plain_adapter sample_ledger "''unknown_id''" "''000''" 0]
  by simp

text \<open>
  Claim C4. When the identifier is absent from the loaded document, or the uid from the
  identifier's run-set, \<open>get_record\<close> raises the \<open>KeyError\<close> that names both, and so
  does a \<open>log\<close> that has something to log. After the failed \<open>log\<close> the file is as it
  was, nothing was written, the record is still not found, and the dictionary kept in
  memory holds no record that the document did not hold.
\<close>

theorem missing_key_is_not_found:
  "fst (load M s) = Inr d \<and>
   (identifier \<notin> fst ` set d \<or> uid \<notin> fst ` set (run_set d identifier)) \<and>
   (st \<noteq> None \<or> truthy_dict pd) \<longrightarrow>
     fst (get_record M s identifier uid) = Inl (no_run_found identifier uid) \<and>
     fst (log M s identifier uid st pd now) = Inl (no_run_found identifier uid) \<and>
     file_bytes (snd (log M s identifier uid st pd now)) = file_bytes s \<and>
     n_writes (snd (log M s identifier uid st pd now)) = n_writes s \<and>
     fst (get_record M (snd (log M s identifier uid st pd now)) identifier uid) =
       Inl (no_run_found identifier uid) \<and>
     (\<forall>i u. lookup (data (snd (log M s identifier uid st pd now))) i u =
            lookup (if file_bytes s = None then data s else d) i u)"
proof (intro impI)
  assume h: "fst (load M s) = Inr d \<and>
   (identifier \<notin> fst ` set d \<or> uid \<notin> fst ` set (run_set d identifier)) \<and>
   (st \<noteq> None \<or> truthy_dict pd)"
  then have d: "fst (load M s) = Inr d" and t: "st \<noteq> None \<or> truthy_dict pd"
    and n: "lookup d identifier uid = None"
    by (simp_all add: lookup_None_iff)
  let ?s' = "snd (log M s identifier uid st pd now)"
  have g: "fst (get_record M s identifier uid) = Inl (no_run_found identifier uid)"
    using d n by (simp add: get_record_result)
  have l: "log M s identifier uid st pd now =
      (Inl (no_run_found identifier uid),
       if file_bytes s = None then snd (load M s)
       else (snd (load M s))\<lparr>data := snd (setdefault d identifier [])\<rparr>)"
    using d n by (simp add: log_unfold[OF t])
  have f: "file_bytes ?s' = file_bytes s" and w: "n_writes ?s' = n_writes s"
    using l by (simp_all add: load_frame)
  from f have "fst (load M ?s') = fst (load M s)" by (rule load_same_file)
  with d n have g': "fst (get_record M ?s' identifier uid) = Inl (no_run_found identifier uid)"
    by (simp add: get_record_result)
  have c: "\<forall>i u. lookup (data ?s') i u = lookup (if file_bytes s = None then data s else d) i u"
    using l by (simp add: lookup_setdefault load_def)
  from g l f w g' c show "fst (get_record M s identifier uid) = Inl (no_run_found identifier uid) \<and>
     fst (log M s identifier uid st pd now) = Inl (no_run_found identifier uid) \<and>
     file_bytes ?s' = file_bytes s \<and> n_writes ?s' = n_writes s \<and>
     fst (get_record M ?s' identifier uid) = Inl (no_run_found identifier uid) \<and>
     (\<forall>i u. lookup (data ?s') i u = lookup (if file_bytes s = None then data s else d) i u)"
    by simp
qed

theorem missing_key_is_not_found_witness:
  "fst (load plain_adapter sample_ledger) = Inr sample_document \<and>
   ''unknown_id'' \<notin> fst ` set sample_document \<and>
   ''nonexistent_uid'' \<notin> fst ` set (run_set sample_document ''known_id'') \<and>
   fst (get_record plain_adapter sample_ledger ''unknown_id'' ''000'') =
     Inl (no_run_found ''unknown_id'' ''000'') \<and>
   fst (log plain_adapter sample_ledger ''known_id'' ''nonexistent_uid'' (Some RUNNING) None 1) =
     Inl (no_run_found ''known_id'' ''nonexistent_uid'') \<and>
   file_bytes (snd (log plain_adapter sample_ledger ''known_id'' ''nonexistent_uid'' (Some RUNNING) None 1)) =
     file_bytes sample_ledger"
proof -
  have a: "''unknown_id'' \<notin> fst ` set sample_document"
    by (simp add: sample_document_def)
  have b: "''nonexistent_uid'' \<notin> fst ` set (run_set sample_document ''known_id'')"
    by (simp add: sample_document_def run_set_conv)
  have c: "Some RUNNING \<noteq> None \<or> truthy_dict (None :: (string \<times> string) list option)"
    by simp
  have g: "fst (get_record plain_adapter sample_ledger ''unknown_id'' ''000'') =
     Inl (no_run_found ''unknown_id'' ''000'')"
    using missing_key_is_not_found[of plain_adapter sample_ledger sample_document "''unknown_id''"
      "''000''" "Some RUNNING" None 1] load_sample a c
    by blast
  have l: "fst (log plain_adapter sample_ledger ''known_id'' ''nonexistent_uid'' (Some RUNNING) None 1) =
     Inl (no_run_found ''known_id'' ''nonexistent_uid'') \<and>
   file_bytes (snd (log plain_adapter sample_ledger ''known_id'' ''nonexistent_uid'' (Some RUNNING) None 1)) =
     file_bytes sample_ledger"
    using missing_key_is_not_found[of plain_adapter sample_ledger sample_document "''known_id''"
      "''nonexistent_uid''" "Some RUNNING" None 1] load_sample b c
    by blast
  from load_sample a b g l show ?thesis by blast
qed

text \<open>
  Claim C5. \<open>find_by_param_hash\<close> with param_hash \<open>None\<close> returns \<open>None\<close> at once
  and leaves the state as it was. With a param_hash \<open>h\<close>, for an identifier that has a
  run-set in the loaded document, it returns the pair at the first position of the
  run-set, in its stored order, whose record has param_hash \<open>h\<close>, and \<open>None\<close> when no
  position has one.
\<close>

theorem find_by_param_hash_first_match:
  "find_by_param_hash M s identifier None = (Inr None, s) \<and>
   (fst (load M s) = Inr d \<and> map_of d identifier = Some uid_records \<longrightarrow>
      (\<exists>res. fst (find_by_param_hash M s identifier (Some h)) = Inr res \<and>
         (case res of
            None \<Rightarrow> \<forall>i<length uid_records. param_hash (snd (uid_records ! i)) \<noteq> Some h
          | Some (u, r) \<Rightarrow>
              \<exists>i<length uid_records. uid_records ! i = (u, r) \<and> param_hash r = Some h \<and>
                (\<forall>j<i. param_hash (snd (uid_records ! j)) \<noteq> Some h))))"
proof (intro conjI impI)
  show "find_by_param_hash M s identifier None = (Inr None, s)"
    by (simp add: find_by_param_hash_def)
next
  assume "fst (load M s) = Inr d \<and> map_of d identifier = Some uid_records"
  then have r: "fst (find_by_param_hash M s identifier (Some h)) =
      Inr (find (\<lambda>(u, r). param_hash r = Some h) uid_records)"
    by (simp add: find_by_param_hash_result get_uid_record_dict_result)
  let ?res = "find (\<lambda>(u, r). param_hash r = Some h) uid_records"
  have "case ?res of
            None \<Rightarrow> \<forall>i<length uid_records. param_hash (snd (uid_records ! i)) \<noteq> Some h
          | Some (u, r) \<Rightarrow>
              \<exists>i<length uid_records. uid_records ! i = (u, r) \<and> param_hash r = Some h \<and>
                (\<forall>j<i. param_hash (snd (uid_records ! j)) \<noteq> Some h)"
    using find_first_match[where P = "\<lambda>(u, r). param_hash r = Some h" and xs = uid_records]
    by (auto simp: case_prod_unfold split: option.splits)
  with r show "\<exists>res. fst (find_by_param_hash M s identifier (Some h)) = Inr res \<and>
         (case res of
            None \<Rightarrow> \<forall>i<length uid_records. param_hash (snd (uid_records ! i)) \<noteq> Some h
          | Some (u, r) \<Rightarrow>
              \<exists>i<length uid_records. uid_records ! i = (u, r) \<and> param_hash r = Some h \<and>
                (\<forall>j<i. param_hash (snd (uid_records ! j)) \<noteq> Some h))"
    by (intro exI[of _ ?res] conjI)
qed

theorem find_by_param_hash_first_match_witness:
  "fst (load plain_adapter sample_ledger) = Inr sample_document \<and>
   map_of sample_document ''known_id'' = Some (snd (hd sample_document)) \<and>
   map (\<lambda>p. param_hash (snd p)) (snd (hd sample_document)) = [Some 5, None, Some 5, Some 7] \<and>
   fst (find_by_param_hash plain_adapter sample_ledger ''known_id'' (Some 5)) =
     Inr (Some (''000'', sample_record (Some 5) ''a'')) \<and>
   fst (find_by_param_hash plain_adapter sample_ledger ''known_id'' (Some 9)) = Inr None \<and>
   find_by_param_hash plain_adapter sample_ledger ''known_id'' None = (Inr None, sample_ledger) \<and>
   (\<exists>i<length (snd (hd sample_document)).
      snd (hd sample_document) ! i = (''000'', sample_record (Some 5) ''a'') \<and>
      (\<forall>j<i. param_hash (snd (snd (hd sample_document) ! j)) \<noteq> Some 5))"
proof -
  have m: "map_of sample_document ''known_id'' = Some (snd (hd sample_document))"
    by (simp add: sample_document_def)
  have hs: "map (\<lambda>p. param_hash (snd p)) (snd (hd sample_document)) = [Some 5, None, Some 5, Some 7]"
    by (simp add: sample_document_def sample_record_def timestamp_status_def new_RunRecord_def)
  have t5: "fst (find_by_param_hash plain_adapter sample_ledger ''known_id'' (Some 5)) =
     Inr (Some (''000'', sample_record (Some 5) ''a''))"
    by (simp add: find_by_param_hash_result get_uid_record_dict_result load_sample
        sample_document_def sample_record_def timestamp_status_def new_RunRecord_def)
  have t9: "fst (find_by_param_hash plain_adapter sample_ledger ''known_id'' (Some 9)) = Inr None"
    by (simp add: find_by_param_hash_result get_uid_record_dict_result load_sample
        sample_document_def sample_record_def timestamp_status_def new_RunRecord_def)
  note T = find_by_param_hash_first_match[of plain_adapter sample_ledger "''known_id''"
      sample_document "snd (hd sample_document)" 5]
  from T have n: "find_by_param_hash plain_adapter sample_ledger ''known_id'' None = (Inr None, sample_ledger)"
    by blast
  from T load_sample m t5
  have "\<exists>i<length (snd (hd sample_document)).
      snd (hd sample_document) ! i = (''000'', sample_record (Some 5) ''a'') \<and>
      param_hash (sample_record (Some 5) ''a'') = Some 5 \<and>
      (\<forall>j<i. param_hash (snd (snd (hd sample_document) ! j)) \<noteq> Some 5)"
    by auto
  with load_sample m hs t5 t9 n show ?thesis by blast
qed

text \<open>
  Claim C10. For an identifier absent from the loaded document and a param_hash that is
  not \<open>None\<close>, \<open>find_by_param_hash\<close> does not return \<open>None\<close>: it fails with the
  \<open>KeyError\<close> of \<open>get_uid_record_dict\<close>. With param_hash \<open>None\<close> it returns
  \<open>None\<close> for any identifier and leaves the state, reads included, as it was.
\<close>

theorem find_by_param_hash_absent_identifier:
  "(fst (load M s) = Inr d \<and> identifier \<notin> fst ` set d \<longrightarrow>
      fst (find_by_param_hash M s identifier (Some h)) = Inl (no_runs_found identifier) \<and>
      fst (get_uid_record_dict M s identifier) = Inl (no_runs_found identifier)) \<and>
   find_by_param_hash M s identifier None = (Inr None, s)"
proof (intro conjI impI)
  assume "fst (load M s) = Inr d \<and> identifier \<notin> fst ` set d"
  then have d: "fst (load M s) = Inr d" and "map_of d identifier = None"
    by (simp_all add: map_of_eq_None_iff)
  then show g: "fst (get_uid_record_dict M s identifier) = Inl (no_runs_found identifier)"
    by (simp add: get_uid_record_dict_result)
  then show "fst (find_by_param_hash M s identifier (Some h)) = Inl (no_runs_found identifier)"
    by (simp add: find_by_param_hash_result)
next
  show "find_by_param_hash M s identifier None = (Inr None, s)"
    by (simp add: find_by_param_hash_def)
qed

theorem find_by_param_hash_absent_identifier_witness:
  "fst (load plain_adapter sample_ledger) = Inr sample_document \<and>
   ''unknown_id'' \<notin> fst ` set sample_document \<and>
   fst (find_by_param_hash plain_adapter sample_ledger ''unknown_id'' (Some 5)) =
     Inl (no_runs_found ''unknown_id'') \<and>
   find_by_param_hash plain_adapter sample_ledger ''unknown_id'' None = (Inr None, sample_ledger)"
proof -
  have a: "''unknown_id'' \<notin> fst ` set sample_document"
    by (simp add: sample_document_def)
  from find_by_param_hash_absent_identifier[of plain_adapter sample_ledger sample_document
      "''unknown_id''" 5] load_sample a
  show ?thesis by blast
qed

text \<open>
  Claim C9. An \<open>allocate\<close> or a \<open>log\<close> that raises, whatever the error, skips the
  save: the file is as it was and nothing was written. A \<open>log\<close> for an identifier
  absent from the loaded document raises the \<open>KeyError\<close> after \<open>setdefault\<close> has
  put an empty run-set for the identifier at the end of the loaded dictionary; that
  dictionary stays in memory (it is \<open>self._data\<close> when the file exists) and is not saved.
\<close>

theorem failed_mutation_is_not_persisted:
  "(allocate M s identifier st rp ph now = (Inl e, s') \<longrightarrow>
      file_bytes s' = file_bytes s \<and> n_writes s' = n_writes s)
   \<and> (log M s identifier uid lst pd now = (Inl e, s') \<longrightarrow>
      file_bytes s' = file_bytes s \<and> n_writes s' = n_writes s)
   \<and> (fst (load M s) = Inr d \<and> identifier \<notin> fst ` set d \<and> (lst \<noteq> None \<or> truthy_dict pd) \<longrightarrow>
      uid_record_dict_body identifier (record_body identifier uid (log_body lst pd now)) d =
        (Inl (no_run_found identifier uid), d @ [(identifier, [])]) \<and>
      log M s identifier uid lst pd now =
        (Inl (no_run_found identifier uid),
         if file_bytes s = None then snd (load M s)
         else (snd (load M s))\<lparr>data := d @ [(identifier, [])]\<rparr>) \<and>
      file_bytes (snd (log M s identifier uid lst pd now)) = file_bytes s \<and>
      n_writes (snd (log M s identifier uid lst pd now)) = n_writes s)"
proof (intro conjI impI)
  assume "allocate M s identifier st rp ph now = (Inl e, s')"
  then show "file_bytes s' = file_bytes s" and "n_writes s' = n_writes s"
    by (rule allocate_Inl)+
next
  assume "log M s identifier uid lst pd now = (Inl e, s')"
  then show "file_bytes s' = file_bytes s" and "n_writes s' = n_writes s"
    by (rule log_Inl)+
next
  assume h: "fst (load M s) = Inr d \<and> identifier \<notin> fst ` set d \<and> (lst \<noteq> None \<or> truthy_dict pd)"
  then have d: "fst (load M s) = Inr d" and a: "identifier \<notin> fst ` set d"
    and t: "lst \<noteq> None \<or> truthy_dict pd"
    by simp_all
  from a have n: "lookup d identifier uid = None" by (simp add: lookup_None_iff)
  from a have "map_of d identifier = None" by (simp add: map_of_eq_None_iff)
  then have sd: "snd (setdefault d identifier ([] :: UID_RECORD_DICT)) = d @ [(identifier, [])]"
    by (simp add: setdefault_def)
  show "uid_record_dict_body identifier (record_body identifier uid (log_body lst pd now)) d =
        (Inl (no_run_found identifier uid), d @ [(identifier, [])])"
    using a by (rule log_body_absent_identifier)
  show l: "log M s identifier uid lst pd now =
        (Inl (no_run_found identifier uid),
         if file_bytes s = None then snd (load M s)
         else (snd (load M s))\<lparr>data := d @ [(identifier, [])]\<rparr>)"
    using d n sd by (simp add: log_unfold[OF t])
  then show "file_bytes (snd (log M s identifier uid lst pd now)) = file_bytes s"
    and "n_writes (snd (log M s identifier uid lst pd now)) = n_writes s"
    by (simp_all add: load_frame)
qed

theorem failed_mutation_is_not_persisted_witness:
  "allocate plain_adapter (fresh_ledger 0) ''exp'' PENDING ''.'' None 0 =
     (Inl CapacityExceeded, fresh_ledger 0) \<and>
   file_bytes (fresh_ledger 0) = None \<and>
   fst (load plain_adapter sample_ledger) = Inr sample_document \<and>
   ''unknown_id'' \<notin> fst ` set sample_document \<and>
   log plain_adapter sample_ledger ''unknown_id'' ''000'' (Some RUNNING) None 1 =
     (Inl (no_run_found ''unknown_id'' ''000''),
      (snd (load plain_adapter sample_ledger))\<lparr>data := sample_document @ [(''unknown_id'', [])]\<rparr>) \<and>
   file_bytes (snd (log plain_adapter sample_ledger ''unknown_id'' ''000'' (Some RUNNING) None 1)) =
     file_bytes sample_ledger \<and>
   n_writes (snd (log plain_adapter sample_ledger ''unknown_id'' ''000'' (Some RUNNING) None 1)) =
     n_writes sample_ledger"
proof -
  have "fst (allocate plain_adapter (fresh_ledger 0) ''exp'' PENDING ''.'' None 0) =
      Inl CapacityExceeded"
    by (simp add: allocate_result fst_load fresh_ledger_def counter_naming_strategy_Inl)
  moreover have "counter_naming_strategy (map fst (run_set [] ''exp'')) 0 = Inl CapacityExceeded"
    by (simp add: counter_naming_strategy_Inl)
  then have "snd (allocate plain_adapter (fresh_ledger 0) ''exp'' PENDING ''.'' None 0) =
      fresh_ledger 0"
    by (simp add: allocate_def edit_uid_record_dict_def edit_data_unfold fst_load
        uid_record_dict_body_unfold allocate_body_cases load_def fresh_ledger_def)
  ultimately have al: "allocate plain_adapter (fresh_ledger 0) ''exp'' PENDING ''.'' None 0 =
     (Inl CapacityExceeded, fresh_ledger 0)"
    by (simp add: prod_eq_iff)
  have fb: "file_bytes (fresh_ledger 0) = None" by (simp add: fresh_ledger_def)
  have a: "''unknown_id'' \<notin> fst ` set sample_document"
    by (simp add: sample_document_def)
  have c: "Some RUNNING \<noteq> None \<or> truthy_dict (None :: (string \<times> string) list option)"
    by simp
  have ex: "file_bytes sample_ledger \<noteq> None" by (simp add: sample_ledger_def)
  have prem: "fst (load plain_adapter sample_ledger) = Inr sample_document \<and>
      ''unknown_id'' \<notin> fst ` set sample_document \<and>
      (Some RUNNING \<noteq> None \<or> truthy_dict (None :: (string \<times> string) list option))"
    using load_sample a c by (intro conjI)
  note R = failed_mutation_is_not_persisted[of plain_adapter sample_ledger "''unknown_id''" _ _ _ 1 _ _
      "''000''" "Some RUNNING" None sample_document, THEN conjunct2, THEN conjunct2, THEN mp, OF prem]
  have l: "log plain_adapter sample_ledger ''unknown_id'' ''000'' (Some RUNNING) None 1 =
     (Inl (no_run_found ''unknown_id'' ''000''),
      (snd (load plain_adapter sample_ledger))\<lparr>data := sample_document @ [(''unknown_id'', [])]\<rparr>)"
    using R[THEN conjunct2, THEN conjunct1] ex by (simp only: if_False)
  note f = R[THEN conjunct2, THEN conjunct2, THEN conjunct1]
  note w = R[THEN conjunct2, THEN conjunct2, THEN conjunct2]
  note A = failed_mutation_is_not_persisted[of plain_adapter "fresh_ledger 0" "''exp''"
      PENDING "''.''" None 0 CapacityExceeded "fresh_ledger 0", THEN conjunct1, THEN mp, OF al]
  from al fb load_sample a l f w A show ?thesis by (intro conjI)
qed

text \<open>
  Claim C7. A \<open>log\<close> with a path_dict on an existing record succeeds, and the record
  read back has the files of before overridden by the path_dict: a tag of the path_dict
  gets its new path, every other tag keeps its path. Attaching \<open>{a: x}\<close>, then
  \<open>{b: y}\<close>, to a record without files gives the files \<open>{a: x, b: y}\<close>, and
  attaching \<open>{a: z}\<close> after that gives \<open>{a: z, b: y}\<close>. No operation removes a
  tag: after any \<open>log\<close> every record that was there is still there with at least the
  tags it had, an \<open>allocate\<close> leaves every such record as it was, and the three queries
  do not write the file. (The file is assumed to read back as written.)
\<close>

theorem log_merges_files:
  "(roundtrip M \<and> fst (get_record M s identifier uid) = Inr r \<and> distinct (map fst pd) \<longrightarrow>
      fst (log M s identifier uid st (Some pd) now) = Inr () \<and>
      (\<exists>r'. fst (get_record M (snd (log M s identifier uid st (Some pd) now)) identifier uid) = Inr r' \<and>
            map_of (files r') = map_of (files r) ++ map_of pd))
   \<and> (roundtrip M \<and> fst (get_record M s identifier uid) = Inr r \<and> files r = [] \<longrightarrow>
      (let s1 = snd (attach_files M s identifier uid [(''a'', ''x'')] t1);
           s2 = snd (attach_files M s1 identifier uid [(''b'', ''y'')] t2);
           s3 = snd (attach_files M s2 identifier uid [(''a'', ''z'')] t3)
       in fst (get_record M s2 identifier uid) = Inr (r\<lparr>files := [(''a'', ''x''), (''b'', ''y'')]\<rparr>) \<and>
          fst (get_record M s3 identifier uid) = Inr (r\<lparr>files := [(''a'', ''z''), (''b'', ''y'')]\<rparr>)))
   \<and> (roundtrip M \<and> fst (get_record M s i u) = Inr q \<longrightarrow>
      (\<exists>q'. fst (get_record M (snd (log M s identifier uid st pdo now)) i u) = Inr q' \<and>
            fst ` set (files q) \<subseteq> fst ` set (files q')) \<and>
      fst (get_record M (snd (allocate M s identifier ast rp ph now)) i u) = Inr q)
   \<and> file_bytes (snd (get_record M s i u)) = file_bytes s
   \<and> file_bytes (snd (get_uid_record_dict M s i)) = file_bytes s
   \<and> file_bytes (snd (find_by_param_hash M s i ph)) = file_bytes s"
proof (intro conjI impI)
  assume h: "roundtrip M \<and> fst (get_record M s identifier uid) = Inr r \<and> distinct (map fst pd)"
  then have a: "roundtrip M" "fst (get_record M s identifier uid) = Inr r" "distinct (map fst pd)"
    by simp_all
  from a show "fst (log M s identifier uid st (Some pd) now) = Inr ()"
    by (rule log_files_merged(1))
  from a show "\<exists>r'. fst (get_record M (snd (log M s identifier uid st (Some pd) now)) identifier uid) = Inr r' \<and>
            map_of (files r') = map_of (files r) ++ map_of pd"
    by (rule log_files_merged(2))
next
  assume "roundtrip M \<and> fst (get_record M s identifier uid) = Inr r \<and> files r = []"
  then have "roundtrip M" "fst (get_record M s identifier uid) = Inr r" "files r = []"
    by simp_all
  then show "let s1 = snd (attach_files M s identifier uid [(''a'', ''x'')] t1);
           s2 = snd (attach_files M s1 identifier uid [(''b'', ''y'')] t2);
           s3 = snd (attach_files M s2 identifier uid [(''a'', ''z'')] t3)
       in fst (get_record M s2 identifier uid) = Inr (r\<lparr>files := [(''a'', ''x''), (''b'', ''y'')]\<rparr>) \<and>
          fst (get_record M s3 identifier uid) = Inr (r\<lparr>files := [(''a'', ''z''), (''b'', ''y'')]\<rparr>)"
    by (rule attach_example)
next
  assume "roundtrip M \<and> fst (get_record M s i u) = Inr q"
  then have a: "roundtrip M" "fst (get_record M s i u) = Inr q" by simp_all
  from a show "\<exists>q'. fst (get_record M (snd (log M s identifier uid st pdo now)) i u) = Inr q' \<and>
            fst ` set (files q) \<subseteq> fst ` set (files q')"
    by (rule log_keeps_files)
  from a show "fst (get_record M (snd (allocate M s identifier ast rp ph now)) i u) = Inr q"
    by (rule allocate_keeps_records)
next
  show "file_bytes (snd (get_record M s i u)) = file_bytes s"
    "file_bytes (snd (get_uid_record_dict M s i)) = file_bytes s"
    "file_bytes (snd (find_by_param_hash M s i ph)) = file_bytes s"
    by (rule query_frames)+
qed

theorem log_merges_files_witness:
  "roundtrip plain_adapter \<and>
   fst (get_record plain_adapter sample_ledger ''known_id'' ''000'') =
     Inr (sample_record (Some 5) ''a'') \<and>
   files (sample_record (Some 5) ''a'') = [] \<and>
   distinct (map fst [(''a'', ''x'')]) \<and>
   (let s1 = snd (attach_files plain_adapter sample_ledger ''known_id'' ''000'' [(''a'', ''x'')] 1);
        s2 = snd (attach_files plain_adapter s1 ''known_id'' ''000'' [(''b'', ''y'')] 2);
        s3 = snd (attach_files plain_adapter s2 ''known_id'' ''000'' [(''a'', ''z'')] 3)
    in fst (get_record plain_adapter s2 ''known_id'' ''000'') =
         Inr ((sample_record (Some 5) ''a'')\<lparr>files := [(''a'', ''x''), (''b'', ''y'')]\<rparr>) \<and>
       fst (get_record plain_adapter s3 ''known_id'' ''000'') =
         Inr ((sample_record (Some 5) ''a'')\<lparr>files := [(''a'', ''z''), (''b'', ''y'')]\<rparr>)) \<and>
   fst (log plain_adapter sample_ledger ''known_id'' ''000'' None (Some [(''a'', ''x'')]) 1) = Inr () \<and>
   fst (get_record plain_adapter
          (snd (allocate plain_adapter sample_ledger ''known_id'' PENDING ''.'' None 1))
          ''known_id'' ''000'') =
     Inr (sample_record (Some 5) ''a'')"
proof -
  have r: "roundtrip plain_adapter"
    by (simp add: roundtrip_def plain_adapter_def)
  have g: "fst (get_record plain_adapter sample_ledger ''known_id'' ''000'') =
     Inr (sample_record (Some 5) ''a'')"
    by (simp add: get_record_result load_sample lookup_def sample_document_def)
  have f: "files (sample_record (Some 5) ''a'') = []"
    by (simp add: sample_record_def timestamp_status_def new_RunRecord_def)
  have d: "distinct (map fst [(''a'', ''x'')])" by simp
  note T = log_merges_files[of plain_adapter sample_ledger "''known_id''" "''000''"
      "sample_record (Some 5) ''a''" "[(''a'', ''x'')]" None 1 1 2 3 "''known_id''" "''000''"
      "sample_record (Some 5) ''a''" None PENDING "''.''" None]
  have p1: "roundtrip plain_adapter \<and>
      fst (get_record plain_adapter sample_ledger ''known_id'' ''000'') =
        Inr (sample_record (Some 5) ''a'') \<and> distinct (map fst [(''a'', ''x'')])"
    using r g d by (intro conjI)
  have p2: "roundtrip plain_adapter \<and>
      fst (get_record plain_adapter sample_ledger ''known_id'' ''000'') =
        Inr (sample_record (Some 5) ''a'') \<and> files (sample_record (Some 5) ''a'') = []"
    using r g f by (intro conjI)
  have p3: "roundtrip plain_adapter \<and>
      fst (get_record plain_adapter sample_ledger ''known_id'' ''000'') =
        Inr (sample_record (Some 5) ''a'')"
    using r g by (intro conjI)
  note c1 = T[THEN conjunct1, THEN mp, OF p1, THEN conjunct1]
  note c2 = T[THEN conjunct2, THEN conjunct1, THEN mp, OF p2]
  note c3 = T[THEN conjunct2, THEN conjunct2, THEN conjunct1, THEN mp, OF p3, THEN conjunct2]
  from r g f d c2 c1 c3 show ?thesis by (intro conjI)
qed

end
